theory Spec2Isabelle
  imports Main "HOL-Library.Word" "HOL-Library.Char_ord"
begin

unbundle bit_operations_syntax

section \<open>Bytes, strings and errors\<close>

text \<open>
  A Go \<open>byte\<close> is an 8-bit word. A Go \<open>string\<close> and the contents of a
  \<open>bytes.Buffer\<close> are byte sequences; both are modelled as \<open>string\<close> (a list of
  8-bit characters), so \<open>msg.WriteString s\<close> is \<open>msg @ s\<close>. An \<open>error\<close> value is
  represented by the message it carries; \<open>nil\<close> is \<open>None\<close> of \<open>error option\<close>.
\<close>

type_synonym byte = "8 word"

datatype error = Error string

definition CRLF :: string where
  "CRLF = [CHR 0x0D, CHR 0x0A]"

section \<open>The binary encoder: \<open>writeBytes\<close>\<close>

subsection \<open>\<open>base64.StdEncoding\<close> of the Go standard library\<close>

text \<open>
  \<open>base64.StdEncoding.Encode\<close> is the padded RFC 4648 encoding over the alphabet
  \<open>encodeStd\<close>. The library packs three source bytes into the low 24 bits of an unsigned
  value, \<open>val := uint(src[si+0])<<16 | uint(src[si+1])<<8 | uint(src[si+2])\<close>, and emits
  \<open>encode[val>>18&0x3F]\<close>, \<open>encode[val>>12&0x3F]\<close>, \<open>encode[val>>6&0x3F]\<close>,
  \<open>encode[val&0x3F]\<close>; a remainder of one or two bytes is packed the same way and padded
  with \<open>=\<close>. \<open>EncodedLen n\<close> is the size of the destination the caller allocates.
\<close>

definition encodeStd :: string where
  "encodeStd = ''ABCDEFGHIJKLMNOPQRSTUVWXYZabcdefghijklmnopqrstuvwxyz0123456789+/''"

definition sextet :: "64 word \<Rightarrow> nat \<Rightarrow> char" where
  "sextet val k = encodeStd ! unat (drop_bit k val AND 0x3F)"

fun base64_Encode :: "byte list \<Rightarrow> string" where
  "base64_Encode (s0 # s1 # s2 # src) =
     (let val = push_bit 16 (ucast s0) OR push_bit 8 (ucast s1) OR ucast s2
      in [sextet val 18, sextet val 12, sextet val 6, sextet val 0] @ base64_Encode src)"
| "base64_Encode [s0, s1] =
     (let val = push_bit 16 (ucast s0) OR push_bit 8 (ucast s1)
      in [sextet val 18, sextet val 12, sextet val 6, CHR ''=''])"
| "base64_Encode [s0] =
     (let val = push_bit 16 (ucast s0)
      in [sextet val 18, sextet val 12, CHR ''='', CHR ''=''])"
| "base64_Encode [] = []"

definition EncodedLen :: "nat \<Rightarrow> nat" where
  "EncodedLen n = (n + 2) div 3 * 4"

subsection \<open>\<open>writeBytes\<close> (identical in both variants of the message model)\<close>

text \<open>
  \<^verbatim>\<open>
  func (m *Mail) writeBytes(msg *bytes.Buffer, file []byte) error {
      payload := make([]byte, base64.StdEncoding.EncodedLen(len(file)))
      base64.StdEncoding.Encode(payload, file)
      msg.WriteString("\r\n")
      for index, line := 0, len(payload); index < line; index++ {
          msg.WriteByte(payload[index])
          if (index+1)%76 == 0 {
              msg.WriteString("\r\n")
          }
      }
      return nil
  }
  \<close>
  The buffer is passed in and returned; the second component is the returned error.
  The loop runs over the index, as the source does.
\<close>

function writeBytes_loop :: "string \<Rightarrow> nat \<Rightarrow> string \<Rightarrow> string" where
  "writeBytes_loop payload index msg =
     (if index < length payload then
        (let msg1 = msg @ [payload ! index];
             msg2 = (if (index + 1) mod 76 = 0 then msg1 @ CRLF else msg1)
         in writeBytes_loop payload (index + 1) msg2)
      else msg)"
  by pat_completeness auto
termination
  by (relation "measure (\<lambda>(payload, index, msg). length payload - index)") auto

declare writeBytes_loop.simps [simp del]

definition writeBytes :: "string \<Rightarrow> byte list \<Rightarrow> string \<times> error option" where
  "writeBytes msg file =
     (let payload = base64_Encode file;
          msg1 = msg @ CRLF
      in (writeBytes_loop payload 0 msg1, None))"

subsection \<open>Two descriptions of line wrapping\<close>

text \<open>
  \<open>wrap76_every_line\<close> follows the words of the specification: the character stream is
  cut into lines of 76 characters and a CRLF is put after every line, the last one
  included even when it is shorter. \<open>wrap76\<close> puts a CRLF after every full line of 76
  characters only. \<open>wrap_from\<close> is the loop of \<open>writeBytes\<close> seen from a given index.
\<close>

function wrap76_every_line :: "string \<Rightarrow> string" where
  "wrap76_every_line s =
     (if s = [] then [] else take 76 s @ CRLF @ wrap76_every_line (drop 76 s))"
  by pat_completeness auto
termination
  by (relation "measure length") auto

function wrap76 :: "string \<Rightarrow> string" where
  "wrap76 s = (if length s < 76 then s else take 76 s @ CRLF @ wrap76 (drop 76 s))"
  by pat_completeness auto
termination
  by (relation "measure length") auto

declare wrap76_every_line.simps [simp del] wrap76.simps [simp del]

fun wrap_from :: "nat \<Rightarrow> string \<Rightarrow> string" where
  "wrap_from index [] = []"
| "wrap_from index (c # cs) =
     c # (if (index + 1) mod 76 = 0 then CRLF else []) @ wrap_from (index + 1) cs"


subsection \<open>Standard base64 decoding and line unwrapping\<close>

text \<open>
  The decoder is the reading side of RFC 4648 with padding: every group of four
  characters of the alphabet gives three bytes, and a last group ending in one or two
  \<open>=\<close> gives two bytes or one. Anything else is rejected. \<open>remove_CRLF\<close> deletes every
  CRLF pair, which is how a reader unwraps the lines.
\<close>

definition decodeMap :: "char \<rightharpoonup> 64 word" where
  "decodeMap = map_of (zip encodeStd (map of_nat [0..<64]))"

definition quantum :: "64 word \<Rightarrow> 64 word \<Rightarrow> 64 word \<Rightarrow> 64 word \<Rightarrow> 64 word" where
  "quantum d0 d1 d2 d3 = push_bit 18 d0 OR push_bit 12 d1 OR push_bit 6 d2 OR d3"

fun base64_Decode :: "string \<Rightarrow> byte list option" where
  "base64_Decode [] = Some []"
| "base64_Decode (c0 # c1 # c2 # c3 # rest) =
     (if rest = [] \<and> c2 = CHR ''='' \<and> c3 = CHR ''='' then
        (case (decodeMap c0, decodeMap c1) of
           (Some d0, Some d1) \<Rightarrow> Some [ucast (drop_bit 16 (quantum d0 d1 0 0))]
         | _ \<Rightarrow> None)
      else if rest = [] \<and> c3 = CHR ''='' then
        (case (decodeMap c0, decodeMap c1, decodeMap c2) of
           (Some d0, Some d1, Some d2) \<Rightarrow>
             Some [ucast (drop_bit 16 (quantum d0 d1 d2 0)),
                   ucast (drop_bit 8 (quantum d0 d1 d2 0))]
         | _ \<Rightarrow> None)
      else
        (case (decodeMap c0, decodeMap c1, decodeMap c2, decodeMap c3) of
           (Some d0, Some d1, Some d2, Some d3) \<Rightarrow>
             (case base64_Decode rest of
                Some bs \<Rightarrow> Some (ucast (drop_bit 16 (quantum d0 d1 d2 d3)) #
                                 ucast (drop_bit 8 (quantum d0 d1 d2 d3)) #
                                 ucast (quantum d0 d1 d2 d3) # bs)
              | None \<Rightarrow> None)
         | _ \<Rightarrow> None))"
| "base64_Decode _ = None"

fun remove_CRLF :: "string \<Rightarrow> string" where
  "remove_CRLF (c # d # s) =
     (if c = CHR 0x0D \<and> d = CHR 0x0A then remove_CRLF s else c # remove_CRLF (d # s))"
| "remove_CRLF s = s"

section \<open>The address validator: \<open>ValidateEmail\<close>\<close>

subsection \<open>Regular expressions of package \<open>regexp\<close>\<close>

text \<open>
  Patterns are syntax trees with the operators of \<open>regexp/syntax\<close> that the pattern of
  the validator needs: a literal, a character class given by its ranges \<open>lo-hi\<close>,
  concatenation, and \<open>r{n,}\<close> (\<open>r+\<close> is \<open>r{1,}\<close>). \<open>NoMatch\<close>, \<open>EmptyMatch\<close> and
  \<open>Alternate\<close> arise while matching. Matching is by derivatives: \<open>deriv c r\<close>
  matches what \<open>r\<close> matches after a leading \<open>c\<close>. The pattern of the validator starts
  with \<open>^\<close> and ends with \<open>$\<close> and sets no flag, so \<open>MatchString\<close> succeeds exactly when
  the whole string matches what stands between the two anchors.
\<close>

datatype regexp =
    NoMatch
  | EmptyMatch
  | Literal char
  | CharClass "(char \<times> char) list"
  | Concat regexp regexp
  | Alternate regexp regexp
  | Repeat nat regexp

definition in_class :: "char \<Rightarrow> (char \<times> char) list \<Rightarrow> bool" where
  "in_class c ranges = list_ex (\<lambda>(lo, hi). lo \<le> c \<and> c \<le> hi) ranges"

fun nullable :: "regexp \<Rightarrow> bool" where
  "nullable NoMatch = False"
| "nullable EmptyMatch = True"
| "nullable (Literal d) = False"
| "nullable (CharClass ranges) = False"
| "nullable (Concat r s) = (nullable r \<and> nullable s)"
| "nullable (Alternate r s) = (nullable r \<or> nullable s)"
| "nullable (Repeat n r) = (n = 0 \<or> nullable r)"

fun deriv :: "char \<Rightarrow> regexp \<Rightarrow> regexp" where
  "deriv c NoMatch = NoMatch"
| "deriv c EmptyMatch = NoMatch"
| "deriv c (Literal d) = (if c = d then EmptyMatch else NoMatch)"
| "deriv c (CharClass ranges) = (if in_class c ranges then EmptyMatch else NoMatch)"
| "deriv c (Concat r s) =
     (if nullable r then Alternate (Concat (deriv c r) s) (deriv c s)
      else Concat (deriv c r) s)"
| "deriv c (Alternate r s) = Alternate (deriv c r) (deriv c s)"
| "deriv c (Repeat n r) = Concat (deriv c r) (Repeat (n - 1) r)"

fun matches :: "regexp \<Rightarrow> string \<Rightarrow> bool" where
  "matches r [] = nullable r"
| "matches r (c # s) = matches (deriv c r) s"

definition MatchString :: "regexp \<Rightarrow> string \<Rightarrow> bool" where
  "MatchString re s = matches re s"

text \<open>The strings a pattern denotes.\<close>

fun lang :: "regexp \<Rightarrow> string set" where
  "lang NoMatch = {}"
| "lang EmptyMatch = {[]}"
| "lang (Literal d) = {[d]}"
| "lang (CharClass ranges) = {[c] | c. in_class c ranges}"
| "lang (Concat r s) = {u @ v | u v. u \<in> lang r \<and> v \<in> lang s}"
| "lang (Alternate r s) = lang r \<union> lang s"
| "lang (Repeat n r) = {concat ws | ws. n \<le> length ws \<and> set ws \<subseteq> lang r}"

subsection \<open>\<open>ValidateEmail\<close>\<close>

text \<open>
  \<^verbatim>\<open>
  var emailRegex = regexp.MustCompile(`^[a-zA-Z0-9._%+\-]+@[a-zA-Z0-9.\-]+\.[a-zA-Z]{2,}$`)
  func ValidateEmail(email string) bool { return emailRegex.MatchString(email) }
  \<close>
\<close>

definition emailRegex :: regexp where
  "emailRegex =
     Concat (Repeat 1 (CharClass [(CHR ''a'', CHR ''z''), (CHR ''A'', CHR ''Z''), (CHR ''0'', CHR ''9''),
                                  (CHR ''.'', CHR ''.''), (CHR ''_'', CHR ''_''), (CHR ''%'', CHR ''%''),
                                  (CHR ''+'', CHR ''+''), (CHR ''-'', CHR ''-'')]))
    (Concat (Literal (CHR ''@''))
    (Concat (Repeat 1 (CharClass [(CHR ''a'', CHR ''z''), (CHR ''A'', CHR ''Z''), (CHR ''0'', CHR ''9''),
                                  (CHR ''.'', CHR ''.''), (CHR ''-'', CHR ''-'')]))
    (Concat (Literal (CHR ''.''))
            (Repeat 2 (CharClass [(CHR ''a'', CHR ''z''), (CHR ''A'', CHR ''Z'')])))))"

definition ValidateEmail :: "string \<Rightarrow> bool" where
  "ValidateEmail email = MatchString emailRegex email"

subsection \<open>The shape of an accepted address, in the words of the specification\<close>

text \<open>
  \<open>claimed_address\<close> is the form that the specification gives: a local part of one or
  more of letters, digits and \<open>._%+-\<close>, an \<open>@\<close>, and a domain of one or more labels
  separated by dots, each label made of letters, digits and \<open>-\<close>, the last label made of
  letters only and at least two long. \<open>accepted_address\<close> differs in the domain: one or
  more of letters, digits, dots and \<open>-\<close>, then a dot, then two or more letters.
\<close>

definition letter :: "char \<Rightarrow> bool" where
  "letter c = ((CHR ''a'' \<le> c \<and> c \<le> CHR ''z'') \<or> (CHR ''A'' \<le> c \<and> c \<le> CHR ''Z''))"

definition digit :: "char \<Rightarrow> bool" where
  "digit c = (CHR ''0'' \<le> c \<and> c \<le> CHR ''9'')"

definition local_char :: "char \<Rightarrow> bool" where
  "local_char c = (letter c \<or> digit c \<or> c \<in> set ''._%+-'')"

definition label_char :: "char \<Rightarrow> bool" where
  "label_char c = (letter c \<or> digit c \<or> c = CHR ''-'')"

definition domain_char :: "char \<Rightarrow> bool" where
  "domain_char c = (label_char c \<or> c = CHR ''.'')"

fun join_dots :: "string list \<Rightarrow> string" where
  "join_dots [] = []"
| "join_dots [l] = l"
| "join_dots (l # ls) = l @ ''.'' @ join_dots ls"

definition claimed_address :: "string \<Rightarrow> bool" where
  "claimed_address s =
     (\<exists>local labels. s = local @ ''@'' @ join_dots labels \<and>
        local \<noteq> [] \<and> list_all local_char local \<and>
        labels \<noteq> [] \<and> list_all (\<lambda>l. l \<noteq> [] \<and> list_all label_char l) labels \<and>
        list_all letter (last labels) \<and> 2 \<le> length (last labels))"

definition accepted_address :: "string \<Rightarrow> bool" where
  "accepted_address s =
     (\<exists>local dom tld. s = local @ ''@'' @ dom @ ''.'' @ tld \<and>
        local \<noteq> [] \<and> list_all local_char local \<and>
        dom \<noteq> [] \<and> list_all domain_char dom \<and>
        2 \<le> length tld \<and> list_all letter tld)"

section \<open>The message model\<close>

text \<open>
  \<open>MailType\<close> is an \<open>int\<close> with the two named values \<open>PlainText\<close> and \<open>HTML\<close>, which index
  \<open>mailTypeNames\<close>; the model has these two values only. Field names of the two part
  records carry a prefix, since a record \<open>Mail\<close> has fields \<open>Body\<close> too.
\<close>

datatype MailType = PlainText | HTML

fun MailType_String :: "MailType \<Rightarrow> string" where
  "MailType_String PlainText = ''text/plain''"
| "MailType_String HTML = ''text/html''"

definition charset :: string where
  "charset = ''UTF-8''"

record AttachmentFile =
  att_Name :: string
  att_ContentType :: string
  att_Body :: "byte list"

record InlineFile =
  inl_CID :: string
  inl_Name :: string
  inl_ContentType :: string
  inl_Body :: "byte list"

record Mail =
  MT :: MailType
  From :: string
  To :: "string list"
  Subject :: string
  Body :: string
  Attachment :: "AttachmentFile list"
  Inline :: "InlineFile list"

text \<open>The struct \<open>Mail\<close> of \<open>mail.go\<close>, the variant without validation and inline files.\<close>

record Mail_go =
  go_MT :: MailType
  go_From :: string
  go_To :: "string list"
  go_Subject :: string
  go_Body :: string
  go_contentType :: string
  go_Attachment :: "AttachmentFile list"

section \<open>Collaborators\<close>

text \<open>
  What \<open>ToBytes\<close> takes from outside the repository is gathered in an environment.
  \<^item> \<open>rand_Read k\<close> is the outcome of the \<open>k\<close>-th draw of random bytes for a
    16-byte buffer within one assembly, counted from 0: the bytes stored at the front of
    the buffer and the error. Up to Go 1.23 these are the results of \<open>crypto/rand.Read\<close>;
    from Go 1.24 on they are the results of its read from the source \<open>rand.Reader\<close>, and
    \<open>crypto/rand.Read\<close> ends the program when that error is not nil, which is the subject
    of the section on a failing random source.
  \<^item> \<open>os_ReadFile path\<close> is the contents and the error returned by \<open>os.ReadFile\<close>.
  \<^item> \<open>qp_Write body\<close> is what \<open>Write\<close> of a fresh \<open>quotedprintable.Writer\<close> on the
    buffer appends to the buffer for the body, and the error it returns; \<open>qp_Close body\<close>
    is the same for the \<open>Close\<close> that follows.
\<close>

record env =
  rand_Read :: "nat \<Rightarrow> byte list \<times> error option"
  os_ReadFile :: "string \<Rightarrow> byte list \<times> error option"
  qp_Write :: "string \<Rightarrow> string \<times> error option"
  qp_Close :: "string \<Rightarrow> string \<times> error option"

section \<open>The boundary generator\<close>

text \<open>
  \<^verbatim>\<open>
  func generateBoundary() string {
      var buf [16]byte
      rand.Read(buf[:])
      return fmt.Sprintf("boundary-%x", buf[:])
  }
  \<close>
  The buffer starts as sixteen zero bytes; both results of \<open>rand.Read\<close> are dropped.
  \<open>%x\<close> renders each byte as two lower-case hexadecimal digits.
\<close>

definition lowerhex :: string where
  "lowerhex = ''0123456789abcdef''"

definition Sprintf_x :: "byte list \<Rightarrow> string" where
  "Sprintf_x bs = concat (map (\<lambda>b. [lowerhex ! unat (drop_bit 4 b), lowerhex ! unat (b AND 0x0F)]) bs)"

definition generateBoundary :: "env \<Rightarrow> nat \<Rightarrow> string" where
  "generateBoundary env k =
     (let buf = replicate 16 (0 :: byte);
          (stored, err) = rand_Read env k;
          buf = take 16 (stored @ drop (length stored) buf)
      in ''boundary-'' @ Sprintf_x buf)"

section \<open>The header formatter: \<open>mime.QEncoding.Encode\<close> and \<open>strings.Join\<close>\<close>

text \<open>
  \<open>Encode\<close> of package \<open>mime\<close> returns its argument when \<open>needsEncoding\<close> is false and an
  RFC 2047 encoded-word otherwise. \<open>needsEncoding\<close> looks for a rune \<open>b\<close> with
  \<open>(b < ' ' || b > '~') && b != '\t'\<close>; a string has such a rune exactly when it has such
  a byte, because a byte below \<open>0x80\<close> always is a rune of its own and every other rune is
  \<open>0x80\<close> or more. \<open>ToBytes\<close> passes the charset \<open>utf-8\<close>, for which \<open>isUTF8\<close> holds; the
  model is the branch of \<open>qEncode\<close> for that case: the word is split so that no
  encoded-word carries more than \<open>maxContentLen\<close> characters and no multi-byte character
  is cut. \<open>DecodeRuneInString_size\<close> is the width that \<open>utf8.DecodeRuneInString\<close> reports,
  and \<open>rune_step\<close> gives \<open>runeLen\<close> and \<open>encLen\<close> of one turn of the loop.
\<close>

definition needsEncoding :: "string \<Rightarrow> bool" where
  "needsEncoding s = list_ex (\<lambda>b. (b < CHR '' '' \<or> CHR ''~'' < b) \<and> b \<noteq> CHR 0x09) s"

definition upperhex :: string where
  "upperhex = ''0123456789ABCDEF''"

definition hex_escape :: "char \<Rightarrow> string" where
  "hex_escape b =
     [CHR ''='', upperhex ! unat (drop_bit 4 (of_char b :: byte)),
      upperhex ! unat ((of_char b :: byte) AND 0x0F)]"

definition q_plain :: "char \<Rightarrow> bool" where
  "q_plain b = (CHR '' '' \<le> b \<and> b \<le> CHR ''~'' \<and> b \<noteq> CHR ''='' \<and> b \<noteq> CHR ''?'' \<and> b \<noteq> CHR ''_'')"

fun writeQString :: "string \<Rightarrow> string \<Rightarrow> string" where
  "writeQString buf [] = buf"
| "writeQString buf (b # s) =
     writeQString
       (if b = CHR '' '' then buf @ ''_''
        else if CHR ''!'' \<le> b \<and> b \<le> CHR ''~'' \<and> b \<noteq> CHR ''='' \<and> b \<noteq> CHR ''?'' \<and> b \<noteq> CHR ''_''
             then buf @ [b]
        else buf @ hex_escape b) s"

definition DecodeRuneInString_size :: "string \<Rightarrow> nat" where
  "DecodeRuneInString_size s =
     (case s of
        [] \<Rightarrow> 0
      | s0 # _ \<Rightarrow>
          (let b0 = (of_char s0 :: nat) in
           if b0 < 0xC2 \<or> 0xF4 < b0 then 1
           else
             (let sz = (if b0 < 0xE0 then 2 else if b0 < 0xF0 then 3 else 4 :: nat);
                  lo = (if b0 = 0xE0 then 0xA0 else if b0 = 0xF0 then 0x90 else 0x80 :: nat);
                  hi = (if b0 = 0xED then 0x9F else if b0 = 0xF4 then 0x8F else 0xBF :: nat)
              in if length s < sz then 1
                 else if (of_char (s ! 1) :: nat) < lo \<or> hi < (of_char (s ! 1) :: nat) then 1
                 else if sz \<le> 2 then 2
                 else if (of_char (s ! 2) :: nat) < 0x80 \<or> 0xBF < (of_char (s ! 2) :: nat) then 1
                 else if sz \<le> 3 then 3
                 else if (of_char (s ! 3) :: nat) < 0x80 \<or> 0xBF < (of_char (s ! 3) :: nat) then 1
                 else 4)))"

definition maxContentLen :: nat where
  "maxContentLen = 75 - length ''=?UTF-8?q?'' - length ''?=''"

definition openWord :: "string \<Rightarrow> string \<Rightarrow> string" where
  "openWord buf cs = buf @ ''=?'' @ cs @ ''?'' @ ''q'' @ ''?''"

definition closeWord :: "string \<Rightarrow> string" where
  "closeWord buf = buf @ ''?=''"

definition splitWord :: "string \<Rightarrow> string \<Rightarrow> string" where
  "splitWord buf cs = openWord (closeWord buf @ '' '') cs"

definition rune_step :: "string \<Rightarrow> nat \<times> nat" where
  "rune_step s =
     (if q_plain (hd s) then (1, 1)
      else (DecodeRuneInString_size s, 3 * DecodeRuneInString_size s))"

lemma DecodeRuneInString_size_pos: "s \<noteq> [] \<Longrightarrow> 0 < DecodeRuneInString_size s"
  by (cases s) (simp_all add: DecodeRuneInString_size_def Let_def)

lemma rune_step_pos: "s \<noteq> [] \<Longrightarrow> 0 < fst (rune_step s)"
  by (simp add: rune_step_def DecodeRuneInString_size_pos)

function qEncode :: "string \<Rightarrow> string \<Rightarrow> nat \<Rightarrow> string \<Rightarrow> string" where
  "qEncode cs s currentLen buf =
     (if s = [] then buf
      else
        (let runeLen = fst (rune_step s);
             encLen = snd (rune_step s);
             split = (maxContentLen < currentLen + encLen);
             buf1 = (if split then splitWord buf cs else buf);
             currentLen1 = (if split then 0 else currentLen);
             buf2 = writeQString buf1 (take runeLen s)
         in qEncode cs (drop runeLen s) (currentLen1 + encLen) buf2))"
  by pat_completeness auto
termination
proof (relation "measure (\<lambda>(cs, s, currentLen, buf). length s)")
  show "wf (measure (\<lambda>(cs, s, currentLen, buf). length s))" by simp
next
  fix cs s :: string and currentLen :: nat and buf :: string
    and runeLen encLen :: nat and split :: bool and buf1 :: string and currentLen1 :: nat
    and buf2 :: string
  assume "s \<noteq> []" and "runeLen = fst (rune_step s)"
  then have "length (drop runeLen s) < length s" using rune_step_pos [of s] by simp
  then show "((cs, drop runeLen s, currentLen1 + encLen, buf2), cs, s, currentLen, buf)
      \<in> measure (\<lambda>(cs, s, currentLen, buf). length s)"
    by simp
qed

declare qEncode.simps [simp del]

definition encodeWord :: "string \<Rightarrow> string \<Rightarrow> string" where
  "encodeWord cs s = closeWord (qEncode cs s 0 (openWord [] cs))"

definition QEncoding_Encode :: "string \<Rightarrow> string \<Rightarrow> string" where
  "QEncoding_Encode cs s = (if \<not> needsEncoding s then s else encodeWord cs s)"

fun strings_Join :: "string list \<Rightarrow> string \<Rightarrow> string" where
  "strings_Join [] sep = []"
| "strings_Join [e] sep = e"
| "strings_Join (e # es) sep = e @ sep @ strings_Join es sep"

section \<open>The text encoder: \<open>quotedprintable.Writer\<close> of the Go standard library\<close>

text \<open>
  The writer keeps a line buffer \<open>line[:i]\<close> and the flag \<open>cr\<close>; \<open>qp_line\<close> is the used part
  of the buffer, so \<open>i\<close> is its length. Every operation returns the new writer and the
  bytes it passed to \<open>Write\<close> of the underlying \<open>bytes.Buffer\<close>, which never fails; the
  writer has no other source of errors. \<open>Binary\<close> is false, as \<open>NewWriter\<close> leaves it.
  \<open>Write\<close> hands runs of bytes that need no escape to \<open>write\<close> and every other byte to
  \<open>encode\<close>, in the order of the input; \<open>Writer_Write\<close> does so byte by byte.
\<close>

record qp_Writer =
  qp_line :: string
  qp_cr :: bool

definition lineMaxLen :: nat where
  "lineMaxLen = 76"

definition NewWriter :: qp_Writer where
  "NewWriter = \<lparr>qp_line = [], qp_cr = False\<rparr>"

definition isWhitespace :: "char \<Rightarrow> bool" where
  "isWhitespace b = (b = CHR '' '' \<or> b = CHR 0x09)"

definition flush :: "qp_Writer \<Rightarrow> qp_Writer \<times> string" where
  "flush w = (w\<lparr>qp_line := []\<rparr>, qp_line w)"

definition insertCRLF :: "qp_Writer \<Rightarrow> qp_Writer \<times> string" where
  "insertCRLF w = flush (w\<lparr>qp_line := qp_line w @ CRLF\<rparr>)"

definition insertSoftLineBreak :: "qp_Writer \<Rightarrow> qp_Writer \<times> string" where
  "insertSoftLineBreak w = insertCRLF (w\<lparr>qp_line := qp_line w @ ''=''\<rparr>)"

definition encode :: "qp_Writer \<Rightarrow> char \<Rightarrow> qp_Writer \<times> string" where
  "encode w b =
     (let (w1, out) = (if lineMaxLen - 1 - length (qp_line w) < 3 then insertSoftLineBreak w
                       else (w, []))
      in (w1\<lparr>qp_line := qp_line w1 @ hex_escape b\<rparr>, out))"

definition checkLastByte :: "qp_Writer \<Rightarrow> qp_Writer \<times> string" where
  "checkLastByte w =
     (if length (qp_line w) = 0 then (w, [])
      else if isWhitespace (last (qp_line w))
           then encode (w\<lparr>qp_line := butlast (qp_line w)\<rparr>) (last (qp_line w))
      else (w, []))"

definition write_byte :: "qp_Writer \<Rightarrow> char \<Rightarrow> qp_Writer \<times> string" where
  "write_byte w b =
     (if b = CHR 0x0A \<or> b = CHR 0x0D then
        (if qp_cr w \<and> b = CHR 0x0A then (w\<lparr>qp_cr := False\<rparr>, [])
         else
           (let w1 = (if b = CHR 0x0D then w\<lparr>qp_cr := True\<rparr> else w);
                (w2, out1) = checkLastByte w1;
                (w3, out2) = insertCRLF w2
            in (w3, out1 @ out2)))
      else
        (let (w1, out1) = (if length (qp_line w) = lineMaxLen - 1 then insertSoftLineBreak w
                           else (w, []))
         in (w1\<lparr>qp_line := qp_line w1 @ [b], qp_cr := False\<rparr>, out1)))"

definition unescaped :: "char \<Rightarrow> bool" where
  "unescaped b =
     ((CHR ''!'' \<le> b \<and> b \<le> CHR ''~'' \<and> b \<noteq> CHR ''='') \<or>
      (isWhitespace b \<or> b = CHR 0x0A \<or> b = CHR 0x0D))"

fun Writer_Write :: "qp_Writer \<Rightarrow> string \<Rightarrow> qp_Writer \<times> string" where
  "Writer_Write w [] = (w, [])"
| "Writer_Write w (b # p) =
     (let (w1, out1) = (if unescaped b then write_byte w b else encode w b);
          (w2, out2) = Writer_Write w1 p
      in (w2, out1 @ out2))"

definition Writer_Close :: "qp_Writer \<Rightarrow> qp_Writer \<times> string" where
  "Writer_Close w =
     (let (w1, out1) = checkLastByte w;
          (w2, out2) = flush w1
      in (w2, out1 @ out2))"

text \<open>The environment in which the text encoder is the one of the standard library.\<close>

definition quotedprintable_Write :: "string \<Rightarrow> string \<times> error option" where
  "quotedprintable_Write body = (snd (Writer_Write NewWriter body), None)"

definition quotedprintable_Close :: "string \<Rightarrow> string \<times> error option" where
  "quotedprintable_Close body = (snd (Writer_Close (fst (Writer_Write NewWriter body))), None)"

definition go_env ::
  "(nat \<Rightarrow> byte list \<times> error option) \<Rightarrow> (string \<Rightarrow> byte list \<times> error option) \<Rightarrow> env" where
  "go_env rnd fs =
     \<lparr>rand_Read = rnd, os_ReadFile = fs,
      qp_Write = quotedprintable_Write, qp_Close = quotedprintable_Close\<rparr>"

section \<open>The message assembler: \<open>ToBytes\<close>\<close>

text \<open>
  \<open>ToBytes\<close> returns the pair \<open>([]byte, error)\<close>; \<open>nil\<close> is \<open>None\<close> on either side. The buffer
  \<open>msg\<close> is threaded through the steps. Each loop of the source is a recursive function
  over the slice it ranges over, and returns the buffer with the error that stopped it.
\<close>

definition DQ :: string where
  "DQ = [CHR 0x22]"

definition writeFile :: "env \<Rightarrow> string \<Rightarrow> string \<Rightarrow> string \<times> error option" where
  "writeFile env msg fileName =
     (case os_ReadFile env fileName of
        (file, Some err) \<Rightarrow> (msg, Some err)
      | (file, None) \<Rightarrow>
          (case writeBytes msg file of
             (msg1, Some err) \<Rightarrow> (msg1, Some err)
           | (msg1, None) \<Rightarrow> (msg1, None)))"

text \<open>The loop \<open>for _, addr := range m.To\<close> with its early return.\<close>

fun validate_To :: "string list \<Rightarrow> error option" where
  "validate_To [] = None"
| "validate_To (addr # rest) =
     (if \<not> ValidateEmail addr then Some (Error (''invalid To email address: '' @ addr))
      else validate_To rest)"

text \<open>
  The body part: its two header lines and the quoted-printable body. The source has this
  block twice with the same text, inside and outside the \<open>multipart/related\<close> container.
\<close>

definition write_body :: "env \<Rightarrow> MailType \<Rightarrow> string \<Rightarrow> string \<Rightarrow> string \<times> error option" where
  "write_body env mt body msg =
     (let msg1 = msg @ ''Content-Type: '' @ MailType_String mt @ ''; charset='' @ charset @ CRLF;
          msg2 = msg1 @ ''Content-Transfer-Encoding: quoted-printable'' @ CRLF @ CRLF;
          (out1, err1) = qp_Write env body;
          msg3 = msg2 @ out1
      in case err1 of
           Some err \<Rightarrow> (msg3, Some err)
         | None \<Rightarrow>
             (let (out2, err2) = qp_Close env body;
                  msg4 = msg3 @ out2
              in case err2 of
                   Some err \<Rightarrow> (msg4, Some err)
                 | None \<Rightarrow> (msg4, None)))"

text \<open>The loop \<open>for _, file := range m.Inline\<close>.\<close>

fun write_inline :: "string \<Rightarrow> string \<Rightarrow> InlineFile list \<Rightarrow> string \<times> error option" where
  "write_inline relatedBoundary msg [] = (msg, None)"
| "write_inline relatedBoundary msg (file # files) =
     (let msg1 = msg @ CRLF @ ''--'' @ relatedBoundary @ CRLF;
          contentType = (if inl_ContentType file = [] then ''application/octet-stream''
                         else inl_ContentType file);
          msg2 = msg1 @ ''Content-Type: '' @ contentType @ ''; name='' @ DQ @ inl_Name file @ DQ @ CRLF;
          msg3 = msg2 @ ''Content-Transfer-Encoding: base64'' @ CRLF;
          msg4 = msg3 @ ''Content-ID: <'' @ inl_CID file @ ''>'' @ CRLF;
          msg5 = msg4 @ ''Content-Disposition: inline; filename='' @ DQ @ inl_Name file @ DQ @ CRLF
      in case writeBytes msg5 (inl_Body file) of
           (msg6, Some err) \<Rightarrow> (msg6, Some err)
         | (msg6, None) \<Rightarrow> write_inline relatedBoundary msg6 files)"

text \<open>The loop \<open>for _, file := range m.Attachment\<close>, the same in both variants.\<close>

fun write_attachments ::
  "env \<Rightarrow> string \<Rightarrow> string \<Rightarrow> AttachmentFile list \<Rightarrow> string \<times> error option" where
  "write_attachments env boundary msg [] = (msg, None)"
| "write_attachments env boundary msg (file # files) =
     (let msg1 = msg @ CRLF @ ''--'' @ boundary @ CRLF;
          contentType = (if att_ContentType file = [] then ''application/octet-stream''
                         else att_ContentType file);
          msg2 = msg1 @ ''Content-Type: '' @ contentType @ ''; name='' @ DQ @ att_Name file @ DQ @ CRLF;
          msg3 = msg2 @ ''Content-Transfer-Encoding: base64'' @ CRLF;
          msg4 = msg3 @ ''Content-Disposition: attachment; filename='' @ DQ @ att_Name file @ DQ @ CRLF
      in case (if 0 < length (att_Body file) then writeBytes msg4 (att_Body file)
               else writeFile env msg4 (att_Name file)) of
           (msg5, Some err) \<Rightarrow> (msg5, Some err)
         | (msg5, None) \<Rightarrow> write_attachments env boundary msg5 files)"

text \<open>\<open>ToBytes\<close> of the variant with validation and inline files.\<close>

definition ToBytes :: "env \<Rightarrow> Mail \<Rightarrow> string option \<times> error option" where
  "ToBytes env m =
     (if length (To m) = 0 then (None, Some (Error ''recipient list is empty''))
      else if length (Body m) = 0 then (None, Some (Error ''email body is empty''))
      else if \<not> ValidateEmail (From m)
           then (None, Some (Error (''invalid From email address: '' @ From m)))
      else
        (case validate_To (To m) of
           Some err \<Rightarrow> (None, Some err)
         | None \<Rightarrow>
             (let msg1 = [] @ ''From: '' @ From m @ CRLF;
                  msg2 = msg1 @ ''To: '' @ strings_Join (To m) '', '' @ CRLF;
                  sbj = QEncoding_Encode ''utf-8'' (Subject m);
                  msg3 = msg2 @ ''Subject: '' @ sbj @ CRLF;
                  msg4 = msg3 @ ''MIME-Version: 1.0'' @ CRLF;
                  boundary = generateBoundary env 0;
                  hasAttachments = (0 < length (Attachment m));
                  hasInline = (0 < length (Inline m));
                  msg5 = (if hasAttachments \<or> hasInline
                          then msg4 @ ''Content-Type: multipart/mixed; boundary='' @ boundary @ CRLF @ CRLF
                                    @ ''--'' @ boundary @ CRLF
                          else msg4)
              in case (if hasInline then
                         (let relatedBoundary = generateBoundary env 1;
                              msg6 = msg5 @ ''Content-Type: multipart/related; boundary=''
                                          @ relatedBoundary @ CRLF @ CRLF;
                              msg7 = msg6 @ ''--'' @ relatedBoundary @ CRLF
                          in case write_body env (MT m) (Body m) msg7 of
                               (msg8, Some err) \<Rightarrow> (msg8, Some err)
                             | (msg8, None) \<Rightarrow>
                                 (case write_inline relatedBoundary msg8 (Inline m) of
                                    (msg9, Some err) \<Rightarrow> (msg9, Some err)
                                  | (msg9, None) \<Rightarrow>
                                      (msg9 @ CRLF @ ''--'' @ relatedBoundary @ ''--'' @ CRLF, None)))
                       else write_body env (MT m) (Body m) msg5) of
                   (msg10, Some err) \<Rightarrow> (None, Some err)
                 | (msg10, None) \<Rightarrow>
                     (case (if hasAttachments
                            then write_attachments env boundary msg10 (Attachment m)
                            else (msg10, None)) of
                        (msg11, Some err) \<Rightarrow> (None, Some err)
                      | (msg11, None) \<Rightarrow>
                          (let msg12 = (if hasAttachments \<or> hasInline
                                        then msg11 @ CRLF @ ''--'' @ boundary @ ''--'' @ CRLF
                                        else msg11)
                           in (Some msg12, None))))))"

text \<open>\<open>ToBytes\<close> of \<open>mail.go\<close>: no validation of addresses, no inline files.\<close>

definition ToBytes_go :: "env \<Rightarrow> Mail_go \<Rightarrow> string option \<times> error option" where
  "ToBytes_go env m =
     (if length (go_To m) = 0 then (None, Some (Error ''recipient list is empty''))
      else if length (go_Body m) = 0 then (None, Some (Error ''email body is empty''))
      else
        (let msg1 = [] @ ''From: '' @ go_From m @ CRLF;
             msg2 = msg1 @ ''To: '' @ strings_Join (go_To m) '', '' @ CRLF;
             sbj = QEncoding_Encode ''utf-8'' (go_Subject m);
             msg3 = msg2 @ ''Subject: '' @ sbj @ CRLF;
             msg4 = msg3 @ ''MIME-Version: 1.0'' @ CRLF;
             boundary = generateBoundary env 0;
             msg5 = (if 0 < length (go_Attachment m)
                     then msg4 @ ''Content-Type: multipart/mixed; boundary='' @ boundary @ CRLF @ CRLF
                               @ ''--'' @ boundary @ CRLF
                     else msg4)
         in case write_body env (go_MT m) (go_Body m) msg5 of
              (msg6, Some err) \<Rightarrow> (None, Some err)
            | (msg6, None) \<Rightarrow>
                (if 0 < length (go_Attachment m) then
                   (case write_attachments env boundary msg6 (go_Attachment m) of
                      (msg7, Some err) \<Rightarrow> (None, Some err)
                    | (msg7, None) \<Rightarrow> (Some (msg7 @ CRLF @ ''--'' @ boundary @ ''--'' @ CRLF), None))
                 else (Some msg6, None))))"

section \<open>A failing random source: \<open>crypto/rand.Read\<close> ends the program\<close>

text \<open>
  From Go 1.24 on, \<open>crypto/rand.Read\<close> does not return an error. It reads from the
  source \<open>rand.Reader\<close> with \<open>io.ReadFull\<close>, and an error of the source ends the program:
  \<^verbatim>\<open>
  func Read(b []byte) (n int, err error) {
      if r, ok := Reader.(*reader); ok {
          _, err = r.Read(b)
      } else {
          bb := make([]byte, len(b))
          _, err = io.ReadFull(Reader, bb)
          copy(b, bb)
      }
      if err != nil {
          fatal("crypto/rand: failed to read random data (see https://go.dev/issue/66821): " + err.Error())
          panic("unreachable") // To be sure.
      }
      return len(b), nil
  }
  \<close>
  \<open>fatal\<close> is the fatal error of the runtime: it prints the message and exits, it is not a
  panic and no \<open>recover\<close> of a caller sees it. A call that runs inside the program so has
  one outcome more than its results: the program ended before the call returned. This is
  \<open>Fatal\<close> below, and \<open>Returns r\<close> is a call that returned \<open>r\<close>.

  In this section \<open>rand_Read env k\<close> is what the source delivers for the \<open>k\<close>-th request of
  sixteen bytes: the bytes read and the error of \<open>io.ReadFull\<close>.
\<close>

datatype 'a run = Returns 'a | Fatal

definition crypto_rand_Read :: "env \<Rightarrow> nat \<Rightarrow> (byte list \<times> error option) run" where
  "crypto_rand_Read env k =
     (case rand_Read env k of
        (bb, Some err) \<Rightarrow> Fatal
      | (bb, None) \<Rightarrow> Returns (bb, None))"

text \<open>
  \<open>generateBoundary\<close> with this \<open>rand.Read\<close>: it has no error result, and it returns only
  if \<open>rand.Read\<close> does.
\<close>

definition generateBoundary_run :: "env \<Rightarrow> nat \<Rightarrow> string run" where
  "generateBoundary_run env k =
     (let buf = replicate 16 (0 :: byte)
      in case crypto_rand_Read env k of
           Fatal \<Rightarrow> Fatal
         | Returns (stored, err) \<Rightarrow>
             (let buf = take 16 (stored @ drop (length stored) buf)
              in Returns (''boundary-'' @ Sprintf_x buf)))"

text \<open>
  \<open>ToBytes\<close> with this \<open>generateBoundary\<close>. The steps are those of \<open>ToBytes\<close> above; the
  two calls of \<open>generateBoundary\<close> are the only places where the program can end. The
  first is reached after the four checks of the arguments have passed and the four
  header lines are written, the second only when there are inline files.
\<close>

definition ToBytes_run :: "env \<Rightarrow> Mail \<Rightarrow> (string option \<times> error option) run" where
  "ToBytes_run env m =
     (if length (To m) = 0 then Returns (None, Some (Error ''recipient list is empty''))
      else if length (Body m) = 0 then Returns (None, Some (Error ''email body is empty''))
      else if \<not> ValidateEmail (From m)
           then Returns (None, Some (Error (''invalid From email address: '' @ From m)))
      else
        (case validate_To (To m) of
           Some err \<Rightarrow> Returns (None, Some err)
         | None \<Rightarrow>
             (let msg1 = [] @ ''From: '' @ From m @ CRLF;
                  msg2 = msg1 @ ''To: '' @ strings_Join (To m) '', '' @ CRLF;
                  sbj = QEncoding_Encode ''utf-8'' (Subject m);
                  msg3 = msg2 @ ''Subject: '' @ sbj @ CRLF;
                  msg4 = msg3 @ ''MIME-Version: 1.0'' @ CRLF
              in case generateBoundary_run env 0 of
                   Fatal \<Rightarrow> Fatal
                 | Returns boundary \<Rightarrow>
                     (let hasAttachments = (0 < length (Attachment m));
                          hasInline = (0 < length (Inline m));
                          msg5 = (if hasAttachments \<or> hasInline
                                  then msg4 @ ''Content-Type: multipart/mixed; boundary='' @ boundary
                                            @ CRLF @ CRLF @ ''--'' @ boundary @ CRLF
                                  else msg4)
                      in case (if hasInline then
                                 (case generateBoundary_run env 1 of
                                    Fatal \<Rightarrow> Fatal
                                  | Returns relatedBoundary \<Rightarrow>
                                      (let msg6 = msg5 @ ''Content-Type: multipart/related; boundary=''
                                                       @ relatedBoundary @ CRLF @ CRLF;
                                           msg7 = msg6 @ ''--'' @ relatedBoundary @ CRLF
                                       in case write_body env (MT m) (Body m) msg7 of
                                            (msg8, Some err) \<Rightarrow> Returns (msg8, Some err)
                                          | (msg8, None) \<Rightarrow>
                                              (case write_inline relatedBoundary msg8 (Inline m) of
                                                 (msg9, Some err) \<Rightarrow> Returns (msg9, Some err)
                                               | (msg9, None) \<Rightarrow>
                                                   Returns (msg9 @ CRLF @ ''--'' @ relatedBoundary
                                                                 @ ''--'' @ CRLF, None))))
                               else Returns (write_body env (MT m) (Body m) msg5)) of
                           Fatal \<Rightarrow> Fatal
                         | Returns (msg10, Some err) \<Rightarrow> Returns (None, Some err)
                         | Returns (msg10, None) \<Rightarrow>
                             (case (if hasAttachments
                                    then write_attachments env boundary msg10 (Attachment m)
                                    else (msg10, None)) of
                                (msg11, Some err) \<Rightarrow> Returns (None, Some err)
                              | (msg11, None) \<Rightarrow>
                                  (let msg12 = (if hasAttachments \<or> hasInline
                                                then msg11 @ CRLF @ ''--'' @ boundary @ ''--'' @ CRLF
                                                else msg11)
                                   in Returns (Some msg12, None)))))))"

section \<open>Errors of the write steps\<close>

text \<open>
  The error with which the attachment loop stops, and the error of the body part, read
  off an empty buffer: neither depends on what the buffer holds or on the boundary.
\<close>

definition attachments_error :: "env \<Rightarrow> AttachmentFile list \<Rightarrow> error option" where
  "attachments_error env files = snd (write_attachments env [] [] files)"

definition body_error :: "env \<Rightarrow> string \<Rightarrow> error option" where
  "body_error env body =
     (case snd (qp_Write env body) of Some err \<Rightarrow> Some err | None \<Rightarrow> snd (qp_Close env body))"

text \<open>
  A message of \<open>mail.go\<close> and a message of the other variant describe the same mail when
  they agree on the fields that both structs have.
\<close>

definition same_message :: "Mail_go \<Rightarrow> Mail \<Rightarrow> bool" where
  "same_message g m =
     (go_MT g = MT m \<and> go_From g = From m \<and> go_To g = To m \<and> go_Subject g = Subject m \<and>
      go_Body g = Body m \<and> go_Attachment g = Attachment m)"

section \<open>The layout of an assembled message\<close>

text \<open>
  The layout that the specification describes, part by part: the four message headers;
  the body part with its two header lines, a blank line and the quoted-printable text;
  a base64 part, which is the blank line and the wrapped base64 text; an inline part and
  an attachment part, each a delimiter line, the part headers and a base64 part; and the
  whole message for given boundaries. An attachment with an empty body takes its content
  from the file of its name.
\<close>

definition message_headers :: "Mail \<Rightarrow> string" where
  "message_headers m =
     ''From: '' @ From m @ CRLF @
     ''To: '' @ strings_Join (To m) '', '' @ CRLF @
     ''Subject: '' @ QEncoding_Encode ''utf-8'' (Subject m) @ CRLF @
     ''MIME-Version: 1.0'' @ CRLF"

definition qp_segment :: "env \<Rightarrow> string \<Rightarrow> string" where
  "qp_segment env body = fst (qp_Write env body) @ fst (qp_Close env body)"

definition body_part :: "env \<Rightarrow> MailType \<Rightarrow> string \<Rightarrow> string" where
  "body_part env mt body =
     ''Content-Type: '' @ MailType_String mt @ ''; charset=UTF-8'' @ CRLF @
     ''Content-Transfer-Encoding: quoted-printable'' @ CRLF @ CRLF @
     qp_segment env body"

definition base64_part :: "byte list \<Rightarrow> string" where
  "base64_part content = CRLF @ wrap76 (base64_Encode content)"

definition content_type_or_default :: "string \<Rightarrow> string" where
  "content_type_or_default ct = (if ct = [] then ''application/octet-stream'' else ct)"

definition inline_part :: "string \<Rightarrow> InlineFile \<Rightarrow> string" where
  "inline_part rb f =
     CRLF @ ''--'' @ rb @ CRLF @
     ''Content-Type: '' @ content_type_or_default (inl_ContentType f) @
        ''; name='' @ DQ @ inl_Name f @ DQ @ CRLF @
     ''Content-Transfer-Encoding: base64'' @ CRLF @
     ''Content-ID: <'' @ inl_CID f @ ''>'' @ CRLF @
     ''Content-Disposition: inline; filename='' @ DQ @ inl_Name f @ DQ @ CRLF @
     base64_part (inl_Body f)"

definition attachment_content :: "env \<Rightarrow> AttachmentFile \<Rightarrow> byte list" where
  "attachment_content env f =
     (if att_Body f \<noteq> [] then att_Body f else fst (os_ReadFile env (att_Name f)))"

definition attachment_part :: "env \<Rightarrow> string \<Rightarrow> AttachmentFile \<Rightarrow> string" where
  "attachment_part env b f =
     CRLF @ ''--'' @ b @ CRLF @
     ''Content-Type: '' @ content_type_or_default (att_ContentType f) @
        ''; name='' @ DQ @ att_Name f @ DQ @ CRLF @
     ''Content-Transfer-Encoding: base64'' @ CRLF @
     ''Content-Disposition: attachment; filename='' @ DQ @ att_Name f @ DQ @ CRLF @
     base64_part (attachment_content env f)"

definition layout :: "env \<Rightarrow> Mail \<Rightarrow> string" where
  "layout env m =
     (let outer = generateBoundary env 0;
          related = generateBoundary env 1;
          multipart = (Attachment m \<noteq> [] \<or> Inline m \<noteq> [])
      in message_headers m @
         (if multipart
          then ''Content-Type: multipart/mixed; boundary='' @ outer @ CRLF @ CRLF @
               ''--'' @ outer @ CRLF
          else []) @
         (if Inline m \<noteq> []
          then ''Content-Type: multipart/related; boundary='' @ related @ CRLF @ CRLF @
               ''--'' @ related @ CRLF @
               body_part env (MT m) (Body m) @
               concat (map (inline_part related) (Inline m)) @
               CRLF @ ''--'' @ related @ ''--'' @ CRLF
          else body_part env (MT m) (Body m)) @
         concat (map (attachment_part env outer) (Attachment m)) @
         (if multipart then CRLF @ ''--'' @ outer @ ''--'' @ CRLF else []))"

text \<open>
  The header block in the words of the specification: the subject is encoded when it has
  a byte that is not ASCII, and passed through when all its bytes are ASCII.
\<close>

definition claimed_subject :: "string \<Rightarrow> string" where
  "claimed_subject s = (if list_ex (\<lambda>b. CHR 0x7F < b) s then encodeWord ''utf-8'' s else s)"

definition claimed_headers :: "Mail \<Rightarrow> string" where
  "claimed_headers m =
     ''From: '' @ From m @ CRLF @
     ''To: '' @ strings_Join (To m) '', '' @ CRLF @
     ''Subject: '' @ claimed_subject (Subject m) @ CRLF @
     ''MIME-Version: 1.0'' @ CRLF"

section \<open>Lines of a text\<close>

text \<open>
  \<open>lines_CRLF\<close> cuts a text at every CRLF pair; the text after the last pair is the last
  line. \<open>lines_within n\<close> says that no line is longer than \<open>n\<close>, the CRLF not counted.
  \<open>whole_lines\<close> are texts made of lines that each end in CRLF, have at most 76
  characters before it and hold no carriage return: what the text encoder passes on.
\<close>

definition cons_first :: "char \<Rightarrow> string list \<Rightarrow> string list" where
  "cons_first c ls = (case ls of [] \<Rightarrow> [[c]] | l # ls' \<Rightarrow> (c # l) # ls')"

fun lines_CRLF :: "string \<Rightarrow> string list" where
  "lines_CRLF (c # d # s) =
     (if c = CHR 0x0D \<and> d = CHR 0x0A then [] # lines_CRLF s
      else cons_first c (lines_CRLF (d # s)))"
| "lines_CRLF [c] = [[c]]"
| "lines_CRLF [] = [[]]"

definition lines_within :: "nat \<Rightarrow> string \<Rightarrow> bool" where
  "lines_within n s = list_all (\<lambda>l. length l \<le> n) (lines_CRLF s)"

definition line_ok :: "string \<Rightarrow> bool" where
  "line_ok l = (length l \<le> 76 \<and> CHR 0x0D \<notin> set l)"

definition whole_lines :: "string \<Rightarrow> bool" where
  "whole_lines out = (\<exists>ls. out = concat (map (\<lambda>l. l @ CRLF) ls) \<and> list_all line_ok ls)"

definition writer_inv :: "qp_Writer \<Rightarrow> bool" where
  "writer_inv w = (length (qp_line w) \<le> 75 \<and> CHR 0x0D \<notin> set (qp_line w))"

section \<open>Example inputs\<close>

text \<open>
  Concrete environments and messages on which the theorems below are instantiated.
  \<open>rand_fixed\<close> stores three bytes on its first call and fails on every later one;
  \<open>fs_one_file\<close> knows the single file \<open>f.txt\<close>.
\<close>

definition rand_fixed :: "nat \<Rightarrow> byte list \<times> error option" where
  "rand_fixed k = (if k = 0 then ([0x01, 0xAB, 0xFF], None) else ([], Some (Error ''no entropy'')))"

definition fs_one_file :: "string \<Rightarrow> byte list \<times> error option" where
  "fs_one_file path =
     (if path = ''f.txt'' then ([0x61], None) else ([], Some (Error ''open: no such file'')))"

definition mail_plain :: Mail where
  "mail_plain =
     \<lparr>MT = PlainText, From = ''a@b.com'', To = [''c@d.com'', ''e@f.org''], Subject = ''Hi'',
      Body = ''hello'', Attachment = [], Inline = []\<rparr>"

definition att_on_disk :: AttachmentFile where
  "att_on_disk = \<lparr>att_Name = ''f.txt'', att_ContentType = [], att_Body = []\<rparr>"

definition att_missing :: AttachmentFile where
  "att_missing = \<lparr>att_Name = ''zz.txt'', att_ContentType = [], att_Body = []\<rparr>"

definition att_in_memory :: AttachmentFile where
  "att_in_memory = \<lparr>att_Name = ''g.txt'', att_ContentType = ''text/x'', att_Body = [0x62, 0x63, 0x64]\<rparr>"

definition inline_logo :: InlineFile where
  "inline_logo =
     \<lparr>inl_CID = ''logo'', inl_Name = ''logo.png'', inl_ContentType = ''image/png'',
      inl_Body = [1, 2, 3, 4]\<rparr>"

definition env_qp_fails :: env where
  "env_qp_fails =
     \<lparr>rand_Read = rand_fixed, os_ReadFile = fs_one_file,
      qp_Write = (\<lambda>body. (take 2 body, Some (Error ''short write''))),
      qp_Close = (\<lambda>body. ([], None))\<rparr>"

definition env_plain :: "(nat \<Rightarrow> byte list \<times> error option) \<Rightarrow> env" where
  "env_plain rnd =
     \<lparr>rand_Read = rnd, os_ReadFile = fs_one_file,
      qp_Write = (\<lambda>body. (body, None)), qp_Close = (\<lambda>body. ([], None))\<rparr>"

definition mail_go_plain :: Mail_go where
  "mail_go_plain =
     \<lparr>go_MT = PlainText, go_From = ''a@b.com'', go_To = [''c@d.com'', ''e@f.org''],
      go_Subject = ''Hi'', go_Body = ''hello'', go_contentType = [], go_Attachment = []\<rparr>"

definition mail_newline_subject :: Mail where
  "mail_newline_subject = mail_plain\<lparr>Subject := ''Hi'' @ [CHR 0x0A] @ ''there''\<rparr>"

definition mail_accent_subject :: Mail where
  "mail_accent_subject = mail_plain\<lparr>Subject := [CHR 0xC3, CHR 0xA9], Attachment := [att_on_disk]\<rparr>"

definition mail_long :: Mail where
  "mail_long =
     mail_plain\<lparr>Body := replicate 100 (CHR ''a''),
                Attachment := [\<lparr>att_Name = ''big.bin'', att_ContentType = [],
                                att_Body = replicate 60 0x61\<rparr>]\<rparr>"

text \<open>
  Three random sources, as a test puts them in place of \<open>rand.Reader\<close>. \<open>reader_counting\<close>
  supplies the sixteen bytes from \<open>16 * k\<close> to \<open>16 * k + 15\<close> for the \<open>k\<close>-th request;
  \<open>reader_broken\<close> fails on every request and \<open>reader_breaks_later\<close> on every request but
  the first.
\<close>

definition reader_counting :: "nat \<Rightarrow> byte list \<times> error option" where
  "reader_counting k = (map (\<lambda>i. of_nat (16 * k + i)) [0..<16], None)"

definition reader_broken :: "nat \<Rightarrow> byte list \<times> error option" where
  "reader_broken k = ([], Some (Error ''no entropy''))"

definition reader_breaks_later :: "nat \<Rightarrow> byte list \<times> error option" where
  "reader_breaks_later k = (if k = 0 then reader_counting 0 else reader_broken k)"

section \<open>Properties of the binary encoder\<close>

lemma length_base64_Encode: "length (base64_Encode src) = EncodedLen (length src)"
proof (induction src rule: base64_Encode.induct)
  case (1 s0 s1 s2 src)
  have "(length src + 3 + 2) div 3 = (length src + 2) div 3 + 1" by presburger
  then show ?case using 1 by (simp add: EncodedLen_def Let_def add.commute)
qed (simp_all add: EncodedLen_def Let_def)

lemma writeBytes_loop_wrap_from:
  "writeBytes_loop payload index msg = msg @ wrap_from index (drop index payload)"
proof (induction payload index msg rule: writeBytes_loop.induct)
  case (1 payload index msg)
  show ?case
  proof (cases "index < length payload")
    case True
    then have d: "drop index payload = payload ! index # drop (Suc index) payload"
      by (simp add: Cons_nth_drop_Suc)
    show ?thesis
      using True 1 [OF True refl refl]
      by (subst writeBytes_loop.simps) (simp add: d Let_def)
  next
    case False
    then show ?thesis by (subst writeBytes_loop.simps) simp
  qed
qed

lemma wrap_from_short: "j + length xs < 76 \<Longrightarrow> wrap_from (76 * q + j) xs = xs"
proof (induction xs arbitrary: j)
  case Nil
  then show ?case by simp
next
  case (Cons x xs)
  have "(76 * q + j + 1) mod 76 = j + 1" using Cons.prems by simp
  moreover have "wrap_from (76 * q + Suc j) xs = xs"
    using Cons.IH [of "Suc j"] Cons.prems by simp
  ultimately show ?case using Cons.prems by simp
qed

lemma wrap_from_line:
  "j + length xs = 76 \<Longrightarrow> xs \<noteq> [] \<Longrightarrow>
   wrap_from (76 * q + j) (xs @ ys) = xs @ CRLF @ wrap_from (76 * Suc q) ys"
proof (induction xs arbitrary: j)
  case Nil
  then show ?case by simp
next
  case (Cons x xs)
  show ?case
  proof (cases "xs = []")
    case True
    then have j: "j = 75" using Cons.prems by simp
    have "(76 * q + 75 + 1) mod 76 = 0" by simp
    then show ?thesis using True j by simp
  next
    case False
    have m: "(76 * q + j + 1) mod 76 = j + 1"
      using Cons.prems False by (cases xs) simp_all
    have "wrap_from (76 * q + Suc j) (xs @ ys) = xs @ CRLF @ wrap_from (76 * Suc q) ys"
      using Cons.IH [of "Suc j"] Cons.prems False by simp
    then show ?thesis using m by simp
  qed
qed

lemma wrap_from_wrap76: "wrap_from (76 * q) s = wrap76 s"
proof (induction s arbitrary: q rule: wrap76.induct)
  case (1 s)
  show ?case
  proof (cases "length s < 76")
    case True
    then show ?thesis using wrap_from_short [of 0 s q] by (subst wrap76.simps) simp
  next
    case False
    then have l: "0 + length (take 76 s) = 76" and ne: "take 76 s \<noteq> []" by auto
    have "wrap_from (76 * q + 0) (take 76 s @ drop 76 s)
            = take 76 s @ CRLF @ wrap_from (76 * Suc q) (drop 76 s)"
      by (rule wrap_from_line [OF l ne])
    then show ?thesis using False 1 [OF False, of "Suc q"] by (subst wrap76.simps) simp
  qed
qed

lemma writeBytes_closed_form:
  "writeBytes msg file = (msg @ CRLF @ wrap76 (base64_Encode file), None)"
  using wrap_from_wrap76 [of 0] by (simp add: writeBytes_def writeBytes_loop_wrap_from)

text \<open>
  Claim C1, as stated: the output of \<open>writeBytes\<close> is the padded base64 text of the input
  with a CRLF after every line of 76 characters, also after a shorter last line. It fails
  on the one-byte input \<open>a\<close>: the code writes a CRLF first and none after the short last
  line \<open>YQ==\<close>.
\<close>

theorem C1_counterexample:
  "fst (writeBytes [] [0x61]) = CRLF @ ''YQ=='' \<and>
   wrap76_every_line (base64_Encode [0x61]) = ''YQ=='' @ CRLF \<and>
   fst (writeBytes [] [0x61]) \<noteq> wrap76_every_line (base64_Encode [0x61])"
  by (simp add: writeBytes_closed_form wrap76.simps wrap76_every_line.simps
      sextet_def encodeStd_def CRLF_def)

text \<open>
  Claim C1, amended: for every buffer and every byte sequence, \<open>writeBytes\<close> appends a
  CRLF followed by the padded base64 text of the input in which a CRLF follows every
  full line of 76 characters; a last line shorter than 76 characters gets no CRLF. The
  returned error is always nil.
\<close>

theorem C1_writeBytes_wraps_full_lines:
  "writeBytes msg file = (msg @ CRLF @ wrap76 (base64_Encode file), None)"
  by (rule writeBytes_closed_form)

theorem C1_witness:
  "writeBytes ''X'' [0x61] = (''X'' @ CRLF @ ''YQ=='', None)"
  using C1_writeBytes_wraps_full_lines [of "''X''" "[0x61]"]
  by (simp add: wrap76.simps sextet_def encodeStd_def)

section \<open>Round trip of the binary encoder\<close>

lemma distinct_encodeStd: "distinct encodeStd"
  by (simp add: encodeStd_def)

lemma length_encodeStd: "length encodeStd = 64"
  by (simp add: encodeStd_def)

lemma decodeMap_nth: "i < 64 \<Longrightarrow> decodeMap (encodeStd ! i) = Some (of_nat i)"
  unfolding decodeMap_def
  using map_of_zip_nth [of encodeStd "map of_nat [0..<64]" i]
  by (simp add: distinct_encodeStd length_encodeStd)

lemma and_63_less: "unat (w AND (0x3F :: 64 word)) < 64"
proof -
  have "w AND 0x3F \<le> 0x3F" by (rule word_and_le1)
  then have "unat (w AND 0x3F) \<le> unat (0x3F :: 64 word)" by (simp add: word_le_nat_alt)
  then show ?thesis by simp
qed

lemma decodeMap_sextet: "decodeMap (sextet val k) = Some (drop_bit k val AND 0x3F)"
  using decodeMap_nth [OF and_63_less, of "drop_bit k val"] by (simp add: sextet_def)

lemma sextet_in_alphabet: "sextet val k \<in> set encodeStd"
  unfolding sextet_def using and_63_less [of "drop_bit k val"]
  by (simp add: length_encodeStd)

lemma pad_not_in_alphabet: "CHR ''='' \<notin> set encodeStd"
  by (simp add: encodeStd_def)

lemma sextet_not_pad: "sextet val k \<noteq> CHR ''=''"
  using sextet_in_alphabet [of val k] pad_not_in_alphabet by auto

lemma mask63: "(0x3F :: 64 word) = mask 6"
  by (simp add: mask_eq_exp_minus_1)

lemma Suc_Suc_diff_2: "2 \<le> n \<Longrightarrow> Suc (Suc (n - 2)) = n"
  by simp

lemma group3_bytes:
  fixes s0 s1 s2 :: byte
  defines "val \<equiv> push_bit 16 (ucast s0) OR push_bit 8 (ucast s1) OR ucast s2 :: 64 word"
  defines "q \<equiv> quantum (drop_bit 18 val AND 0x3F) (drop_bit 12 val AND 0x3F)
                       (drop_bit 6 val AND 0x3F) (val AND 0x3F)"
  shows "ucast (drop_bit 16 q) = s0" and "ucast (drop_bit 8 q) = s1" and "ucast q = s2"
proof -
  show "ucast (drop_bit 16 q) = s0"
    unfolding q_def quantum_def val_def mask63
    by (rule bit_word_eqI) (auto simp add: bit_simps Suc_Suc_diff_2 dest: bit_imp_le_length)
  show "ucast (drop_bit 8 q) = s1"
    unfolding q_def quantum_def val_def mask63
    by (rule bit_word_eqI) (auto simp add: bit_simps dest: bit_imp_le_length)
  show "ucast q = s2"
    unfolding q_def quantum_def val_def mask63
    by (rule bit_word_eqI) (auto simp add: bit_simps dest: bit_imp_le_length)
qed

lemma group2_bytes:
  fixes s0 s1 :: byte
  defines "val \<equiv> push_bit 16 (ucast s0) OR push_bit 8 (ucast s1) :: 64 word"
  defines "q \<equiv> quantum (drop_bit 18 val AND 0x3F) (drop_bit 12 val AND 0x3F)
                       (drop_bit 6 val AND 0x3F) 0"
  shows "ucast (drop_bit 16 q) = s0" and "ucast (drop_bit 8 q) = s1"
proof -
  show "ucast (drop_bit 16 q) = s0"
    unfolding q_def quantum_def val_def mask63
    by (rule bit_word_eqI) (auto simp add: bit_simps Suc_Suc_diff_2 dest: bit_imp_le_length)
  show "ucast (drop_bit 8 q) = s1"
    unfolding q_def quantum_def val_def mask63
    by (rule bit_word_eqI) (auto simp add: bit_simps dest: bit_imp_le_length)
qed

lemma group1_bytes:
  fixes s0 :: byte
  defines "val \<equiv> push_bit 16 (ucast s0) :: 64 word"
  defines "q \<equiv> quantum (drop_bit 18 val AND 0x3F) (drop_bit 12 val AND 0x3F) 0 0"
  shows "ucast (drop_bit 16 q) = s0"
  unfolding q_def quantum_def val_def mask63
  by (rule bit_word_eqI) (auto simp add: bit_simps Suc_Suc_diff_2 dest: bit_imp_le_length)

lemma base64_Encode_Nil_iff: "base64_Encode src = [] \<longleftrightarrow> src = []"
  by (induction src rule: base64_Encode.induct) (simp_all add: Let_def)

lemma base64_roundtrip: "base64_Decode (base64_Encode src) = Some src"
proof (induction src rule: base64_Encode.induct)
  case (1 s0 s1 s2 src)
  define val :: "64 word" where "val = push_bit 16 (ucast s0) OR push_bit 8 (ucast s1) OR ucast s2"
  have enc: "base64_Encode (s0 # s1 # s2 # src) =
      sextet val 18 # sextet val 12 # sextet val 6 # sextet val 0 # base64_Encode src"
    by (simp only: base64_Encode.simps Let_def val_def append_Cons append_Nil)
  show ?case
    unfolding enc using 1 group3_bytes [of s0 s1 s2, folded val_def]
    by (simp add: decodeMap_sextet sextet_not_pad)
next
  case (2 s0 s1)
  define val :: "64 word" where "val = push_bit 16 (ucast s0) OR push_bit 8 (ucast s1)"
  have enc: "base64_Encode [s0, s1] = [sextet val 18, sextet val 12, sextet val 6, CHR ''='']"
    by (simp only: base64_Encode.simps Let_def val_def)
  show ?case
    unfolding enc using group2_bytes [of s0 s1, folded val_def]
    by (simp add: decodeMap_sextet sextet_not_pad)
next
  case (3 s0)
  define val :: "64 word" where "val = push_bit 16 (ucast s0)"
  have enc: "base64_Encode [s0] = [sextet val 18, sextet val 12, CHR ''='', CHR ''='']"
    by (simp only: base64_Encode.simps Let_def val_def)
  show ?case
    unfolding enc using group1_bytes [of s0, folded val_def]
    by (simp add: decodeMap_sextet sextet_not_pad)
next
  case 4
  then show ?case by simp
qed

lemma base64_Encode_chars: "set (base64_Encode src) \<subseteq> set encodeStd \<union> {CHR ''=''}"
  by (induction src rule: base64_Encode.induct) (simp_all add: Let_def sextet_in_alphabet)

lemma CR_not_base64: "CHR 0x0D \<notin> set (base64_Encode src)"
proof -
  have "CHR 0x0D \<notin> set encodeStd \<union> {CHR ''=''}" by (simp add: encodeStd_def)
  then show ?thesis using base64_Encode_chars [of src] by blast
qed

lemma remove_CRLF_no_CR: "CHR 0x0D \<notin> set xs \<Longrightarrow> remove_CRLF xs = xs"
  by (induction xs rule: remove_CRLF.induct) auto

lemma remove_CRLF_line:
  "CHR 0x0D \<notin> set xs \<Longrightarrow> remove_CRLF (xs @ CRLF @ ys) = xs @ remove_CRLF ys"
proof (induction xs)
  case Nil
  then show ?case by (simp add: CRLF_def)
next
  case (Cons x xs)
  then show ?case by (cases "xs @ CRLF @ ys") (auto simp: CRLF_def)
qed

lemma remove_CRLF_wrap76: "CHR 0x0D \<notin> set s \<Longrightarrow> remove_CRLF (wrap76 s) = s"
proof (induction s rule: wrap76.induct)
  case (1 s)
  show ?case
  proof (cases "length s < 76")
    case True
    then show ?thesis using 1 by (subst wrap76.simps) (simp add: remove_CRLF_no_CR)
  next
    case False
    have a: "CHR 0x0D \<notin> set (take 76 s)" using "1.prems" by (auto dest: in_set_takeD)
    have b: "CHR 0x0D \<notin> set (drop 76 s)" using "1.prems" by (auto dest: in_set_dropD)
    have "remove_CRLF (take 76 s @ CRLF @ wrap76 (drop 76 s)) = take 76 s @ drop 76 s"
      using remove_CRLF_line [OF a] "1.IH" [OF False b] by simp
    then show ?thesis using False by (subst wrap76.simps) simp
  qed
qed


lemma writeBytes_roundtrip:
  "base64_Decode (remove_CRLF (drop (length msg) (fst (writeBytes msg file)))) = Some file"
proof -
  have "remove_CRLF (CRLF @ wrap76 (base64_Encode file)) = base64_Encode file"
    using remove_CRLF_line [of "[]" "wrap76 (base64_Encode file)"]
    by (simp add: remove_CRLF_wrap76 CR_not_base64)
  then show ?thesis by (simp add: writeBytes_closed_form base64_roundtrip)
qed

text \<open>
  Claim C7: for every byte sequence, and whatever the buffer held before, taking the part
  that \<open>writeBytes\<close> appended, removing the CRLF line breaks and base64-decoding the rest
  gives back exactly the original bytes.
\<close>

theorem C7_base64_part_roundtrip:
  "base64_Decode (remove_CRLF (drop (length msg) (fst (writeBytes msg file)))) = Some file"
  by (rule writeBytes_roundtrip)

theorem C7_witness:
  "remove_CRLF (drop (length ''ab'') (fst (writeBytes ''ab'' [0x61, 0x00, 0xFF, 0x10]))) = ''YQD/EA=='' \<and>
   base64_Decode ''YQD/EA=='' = Some [0x61, 0x00, 0xFF, 0x10]"
proof -
  have a: "remove_CRLF (drop (length ''ab'') (fst (writeBytes ''ab'' [0x61, 0x00, 0xFF, 0x10])))
             = ''YQD/EA==''"
    by (simp add: writeBytes_closed_form wrap76.simps sextet_def encodeStd_def CRLF_def)
  show ?thesis
    using C7_base64_part_roundtrip [of "''ab''" "[0x61, 0x00, 0xFF, 0x10]"] unfolding a
    by simp
qed

section \<open>Correctness of the matcher\<close>

lemma lang_ConcatI: "u \<in> lang r \<Longrightarrow> v \<in> lang s \<Longrightarrow> u @ v \<in> lang (Concat r s)"
  by auto

lemma lang_RepeatI: "n \<le> length ws \<Longrightarrow> set ws \<subseteq> lang r \<Longrightarrow> concat ws \<in> lang (Repeat n r)"
  by auto

lemma nullable_lang: "nullable r \<longleftrightarrow> [] \<in> lang r"
proof (induction r)
  case (Repeat n r)
  show ?case
  proof
    assume "nullable (Repeat n r)"
    then have "n = 0 \<or> [] \<in> lang r" using Repeat.IH by simp
    then show "[] \<in> lang (Repeat n r)"
    proof
      assume "n = 0"
      then have "n \<le> length ([] :: string list) \<and> set ([] :: string list) \<subseteq> lang r \<and> concat ([] :: string list) = []"
        by simp
      then show ?thesis by (metis (mono_tags, lifting) lang.simps(7) mem_Collect_eq)
    next
      assume e: "[] \<in> lang r"
      have "n \<le> length (replicate n ([] :: string)) \<and> set (replicate n ([] :: string)) \<subseteq> lang r
              \<and> concat (replicate n ([] :: string)) = []"
        using e by (induction n) auto
      then show ?thesis by (metis (mono_tags, lifting) lang.simps(7) mem_Collect_eq)
    qed
  next
    assume "[] \<in> lang (Repeat n r)"
    then obtain ws where ws: "concat ws = []" "n \<le> length ws" "set ws \<subseteq> lang r"
      by auto
    show "nullable (Repeat n r)"
    proof (cases "n = 0")
      case True
      then show ?thesis by simp
    next
      case False
      then obtain w ws' where "ws = w # ws'" using ws(2) by (cases ws) auto
      then have "w = []" and "w \<in> lang r" using ws by auto
      then show ?thesis using Repeat.IH by simp
    qed
  qed
qed auto

lemma concat_Cons_split:
  fixes ws :: "string list"
  shows "concat ws = c # s \<Longrightarrow>
   \<exists>pre u rest. ws = pre @ (c # u) # rest \<and> concat pre = [] \<and> s = u @ concat rest"
proof (induction ws)
  case Nil
  then show ?case by simp
next
  case (Cons w ws)
  show ?case
  proof (cases w)
    case Nil
    then have "concat ws = c # s" using Cons.prems by simp
    then obtain pre u rest where
      "ws = pre @ (c # u) # rest" "concat pre = []" "s = u @ concat rest"
      using Cons.IH by blast
    then have "w # ws = ([] # pre) @ (c # u) # rest \<and> concat ([] # pre) = [] \<and> s = u @ concat rest"
      using Nil by simp
    then show ?thesis by blast
  next
    case (Cons d u)
    then have "d = c" and "s = u @ concat ws" using Cons.prems by simp_all
    then show ?thesis
    proof (intro exI conjI)
      show "w # ws = [] @ (c # u) # ws" using Cons \<open>d = c\<close> by simp
      show "concat ([] :: string list) = []" by simp
      show "s = u @ concat ws" by fact
    qed
  qed
qed

lemma lang_deriv: "lang (deriv c r) = {s. c # s \<in> lang r}"
proof (induction r)
  case (Concat r1 r2)
  show ?case
  proof (intro set_eqI iffI)
    fix s assume "s \<in> lang (deriv c (Concat r1 r2))"
    then consider (left) u v where "s = u @ v" "c # u \<in> lang r1" "v \<in> lang r2"
      | (right) "nullable r1" "c # s \<in> lang r2"
      using Concat.IH by (auto split: if_splits)
    then show "s \<in> {s. c # s \<in> lang (Concat r1 r2)}"
    proof cases
      case left
      then show ?thesis using lang_ConcatI [of "c # u" r1 v r2] by simp
    next
      case right
      then have "c # s = [] @ (c # s) \<and> [] \<in> lang r1" using nullable_lang by simp
      then show ?thesis using right by auto
    qed
  next
    fix s assume "s \<in> {s. c # s \<in> lang (Concat r1 r2)}"
    then obtain u v where uv: "c # s = u @ v" "u \<in> lang r1" "v \<in> lang r2" by auto
    show "s \<in> lang (deriv c (Concat r1 r2))"
    proof (cases u)
      case Nil
      then have "nullable r1" and "s \<in> lang (deriv c r2)"
        using uv Concat.IH nullable_lang by auto
      then show ?thesis by simp
    next
      case (Cons d u')
      then have "d = c" "s = u' @ v" "u' \<in> lang (deriv c r1)" using uv Concat.IH by auto
      then show ?thesis using uv(3) by auto
    qed
  qed
next
  case (Repeat n r)
  show ?case
  proof (intro set_eqI iffI)
    fix s assume "s \<in> lang (deriv c (Repeat n r))"
    then obtain u vs where s: "s = u @ concat vs" and u: "c # u \<in> lang r"
      and vs: "n - 1 \<le> length vs" "set vs \<subseteq> lang r"
      using Repeat.IH by auto
    have "c # s = concat ((c # u) # vs) \<and> n \<le> length ((c # u) # vs) \<and> set ((c # u) # vs) \<subseteq> lang r"
      using s u vs by auto
    then show "s \<in> {s. c # s \<in> lang (Repeat n r)}" 
      by (metis (mono_tags, lifting) lang.simps(7) mem_Collect_eq)
  next
    fix s assume "s \<in> {s. c # s \<in> lang (Repeat n r)}"
    then obtain ws where ws: "concat ws = c # s" "n \<le> length ws" "set ws \<subseteq> lang r"
      by auto
    from concat_Cons_split [OF ws(1)] obtain pre u rest where
      sp: "ws = pre @ (c # u) # rest" "concat pre = []" "s = u @ concat rest"
      by blast
    have u: "u \<in> lang (deriv c r)" using ws(3) sp(1) Repeat.IH by auto
    have "concat (pre @ rest) = concat rest \<and> n - 1 \<le> length (pre @ rest) \<and> set (pre @ rest) \<subseteq> lang r"
      using ws sp by auto
    then have "concat rest \<in> lang (Repeat (n - 1) r)"
      by (metis (mono_tags, lifting) lang.simps(7) mem_Collect_eq)
    then show "s \<in> lang (deriv c (Repeat n r))" using u sp(3) by auto
  qed
qed auto

lemma matches_lang: "matches r s \<longleftrightarrow> s \<in> lang r"
  by (induction s arbitrary: r) (simp_all add: nullable_lang lang_deriv)

lemma concat_singletons:
  "set ws \<subseteq> {[c] | c. P c} \<Longrightarrow> length (concat ws) = length ws \<and> list_all P (concat ws)"
  by (induction ws) auto

lemma lang_Repeat_CharClass:
  "lang (Repeat n (CharClass ranges)) = {w. n \<le> length w \<and> list_all (\<lambda>c. in_class c ranges) w}"
proof (intro set_eqI iffI)
  fix w assume "w \<in> lang (Repeat n (CharClass ranges))"
  then obtain ws where ws: "w = concat ws" "n \<le> length ws"
    "set ws \<subseteq> {[c] | c. in_class c ranges}" by auto
  from concat_singletons [OF ws(3)] ws(1,2)
  show "w \<in> {w. n \<le> length w \<and> list_all (\<lambda>c. in_class c ranges) w}" by simp
next
  fix w assume "w \<in> {w. n \<le> length w \<and> list_all (\<lambda>c. in_class c ranges) w}"
  then have "w = concat (map (\<lambda>c. [c]) w) \<and> n \<le> length (map (\<lambda>c. [c]) w) \<and>
    set (map (\<lambda>c. [c]) w) \<subseteq> lang (CharClass ranges)"
    by (auto simp: list_all_iff)
  then show "w \<in> lang (Repeat n (CharClass ranges))"
    by (metis (mono_tags, lifting) lang.simps(7) mem_Collect_eq)
qed



section \<open>What the address validator accepts\<close>

lemma in_class_local:
  "in_class c [(CHR ''a'', CHR ''z''), (CHR ''A'', CHR ''Z''), (CHR ''0'', CHR ''9''),
               (CHR ''.'', CHR ''.''), (CHR ''_'', CHR ''_''), (CHR ''%'', CHR ''%''),
               (CHR ''+'', CHR ''+''), (CHR ''-'', CHR ''-'')] \<longleftrightarrow> local_char c"
  by (auto simp: in_class_def local_char_def letter_def digit_def)

lemma in_class_domain:
  "in_class c [(CHR ''a'', CHR ''z''), (CHR ''A'', CHR ''Z''), (CHR ''0'', CHR ''9''),
               (CHR ''.'', CHR ''.''), (CHR ''-'', CHR ''-'')] \<longleftrightarrow> domain_char c"
  by (auto simp: in_class_def domain_char_def label_char_def letter_def digit_def)

lemma in_class_letter:
  "in_class c [(CHR ''a'', CHR ''z''), (CHR ''A'', CHR ''Z'')] \<longleftrightarrow> letter c"
  by (auto simp: in_class_def letter_def)



lemma one_le_length: "1 \<le> length w \<longleftrightarrow> w \<noteq> []"
  by (cases w) simp_all

lemma lang_ConcatE:
  assumes "w \<in> lang (Concat r s)"
  obtains u v where "w = u @ v" "u \<in> lang r" "v \<in> lang s"
  using assms by auto

lemma lang_Concat_Literal:
  "lang (Concat a (Concat (Literal x) (Concat b (Concat (Literal y) c)))) =
     {u @ [x] @ v @ [y] @ w | u v w. u \<in> lang a \<and> v \<in> lang b \<and> w \<in> lang c}"
proof (intro set_eqI iffI)
  fix s assume "s \<in> lang (Concat a (Concat (Literal x) (Concat b (Concat (Literal y) c))))"
  then obtain u r1 where 1: "s = u @ r1" "u \<in> lang a"
    "r1 \<in> lang (Concat (Literal x) (Concat b (Concat (Literal y) c)))"
    by (rule lang_ConcatE)
  from 1(3) obtain l1 r2 where 2: "r1 = l1 @ r2" "l1 \<in> lang (Literal x)"
    "r2 \<in> lang (Concat b (Concat (Literal y) c))"
    by (rule lang_ConcatE)
  from 2(3) obtain v r3 where 3: "r2 = v @ r3" "v \<in> lang b" "r3 \<in> lang (Concat (Literal y) c)"
    by (rule lang_ConcatE)
  from 3(3) obtain l2 w where 4: "r3 = l2 @ w" "l2 \<in> lang (Literal y)" "w \<in> lang c"
    by (rule lang_ConcatE)
  have "l1 = [x]" and "l2 = [y]" using 2(2) 4(2) by simp_all
  then have "s = u @ [x] @ v @ [y] @ w" using 1(1) 2(1) 3(1) 4(1) by simp
  then show "s \<in> {u @ [x] @ v @ [y] @ w | u v w. u \<in> lang a \<and> v \<in> lang b \<and> w \<in> lang c}"
    using 1(2) 3(2) 4(3) by blast
next
  fix s assume "s \<in> {u @ [x] @ v @ [y] @ w | u v w. u \<in> lang a \<and> v \<in> lang b \<and> w \<in> lang c}"
  then obtain u v w where s: "s = u @ [x] @ v @ [y] @ w" and m: "u \<in> lang a" "v \<in> lang b" "w \<in> lang c"
    by blast
  have l: "[y] \<in> lang (Literal y)" "[x] \<in> lang (Literal x)" by simp_all
  show "s \<in> lang (Concat a (Concat (Literal x) (Concat b (Concat (Literal y) c))))"
    unfolding s by (intro lang_ConcatI m l)
qed

lemma ValidateEmail_accepted: "ValidateEmail s \<longleftrightarrow> accepted_address s"
proof -
  have "ValidateEmail s \<longleftrightarrow> s \<in> lang emailRegex"
    by (simp add: ValidateEmail_def MatchString_def matches_lang)
  also have "\<dots> \<longleftrightarrow> (\<exists>u v w. s = u @ ''@'' @ v @ ''.'' @ w \<and>
       (1 \<le> length u \<and> list_all local_char u) \<and> (1 \<le> length v \<and> list_all domain_char v) \<and>
       (2 \<le> length w \<and> list_all letter w))"
    unfolding emailRegex_def lang_Concat_Literal lang_Repeat_CharClass
      in_class_local in_class_domain in_class_letter
    by blast
  also have "\<dots> \<longleftrightarrow> accepted_address s"
    unfolding accepted_address_def one_le_length by blast
  finally show ?thesis .
qed

text \<open>
  Claim C4, as stated: \<open>ValidateEmail s\<close> holds exactly when \<open>s\<close> has the form of
  \<open>claimed_address\<close>. It fails at \<open>a@com\<close>: the domain is the single label \<open>com\<close>, letters
  only and at least two long, yet the pattern asks for a dot before the last label.
\<close>

theorem C4_counterexample:
  "claimed_address ''a@com'' \<and> \<not> ValidateEmail ''a@com''"
proof
  have "''a@com'' = ''a'' @ ''@'' @ join_dots [''com''] \<and>
        ''a'' \<noteq> [] \<and> list_all local_char ''a'' \<and>
        [''com''] \<noteq> [] \<and> list_all (\<lambda>l. l \<noteq> [] \<and> list_all label_char l) [''com''] \<and>
        list_all letter (last [''com'']) \<and> 2 \<le> length (last [''com''])"
    by (simp add: local_char_def label_char_def letter_def)
  then show "claimed_address ''a@com''"
    unfolding claimed_address_def by blast
  show "\<not> ValidateEmail ''a@com''"
    by (simp add: ValidateEmail_def MatchString_def emailRegex_def in_class_def)
qed

text \<open>
  Claim C4, amended: \<open>ValidateEmail s\<close> holds exactly when \<open>s\<close> is a local part of one or more
  of letters, digits and \<open>._%+-\<close>, then \<open>@\<close>, then one or more of letters, digits, \<open>.\<close> and
  \<open>-\<close>, then a dot, then a last label of two or more letters. The domain so has at least
  two labels, and a label before the last may be empty.
\<close>

theorem C4_ValidateEmail_accepts:
  "ValidateEmail s \<longleftrightarrow> accepted_address s"
  by (rule ValidateEmail_accepted)

theorem C4_witness:
  "accepted_address ''user+tag@example.co.uk'' \<and> accepted_address ''a@..com'' \<and>
   \<not> accepted_address ''a@com'' \<and> \<not> accepted_address ''user @example.com''"
  using C4_ValidateEmail_accepts [of "''user+tag@example.co.uk''"]
    C4_ValidateEmail_accepts [of "''a@..com''"]
    C4_ValidateEmail_accepts [of "''a@com''"]
    C4_ValidateEmail_accepts [of "''user @example.com''"]
  by (simp add: ValidateEmail_def MatchString_def emailRegex_def in_class_def)

section \<open>Preconditions and errors of \<open>ToBytes\<close>\<close>

lemma validate_To_first_invalid:
  "list_all ValidateEmail ok \<Longrightarrow> \<not> ValidateEmail addr \<Longrightarrow>
   validate_To (ok @ addr # rest) = Some (Error (''invalid To email address: '' @ addr))"
  by (induction ok) simp_all

lemma validate_To_None: "validate_To tos = None \<longleftrightarrow> list_all ValidateEmail tos"
  by (induction tos) simp_all

lemma ToBytes_empty_To:
  "To m = [] \<Longrightarrow> ToBytes env m = (None, Some (Error ''recipient list is empty''))"
  by (simp add: ToBytes_def)

lemma ToBytes_empty_Body:
  "To m \<noteq> [] \<Longrightarrow> Body m = [] \<Longrightarrow> ToBytes env m = (None, Some (Error ''email body is empty''))"
  by (simp add: ToBytes_def)

lemma ToBytes_invalid_From:
  "To m \<noteq> [] \<Longrightarrow> Body m \<noteq> [] \<Longrightarrow> \<not> ValidateEmail (From m) \<Longrightarrow>
   ToBytes env m = (None, Some (Error (''invalid From email address: '' @ From m)))"
  by (simp add: ToBytes_def)

lemma ToBytes_invalid_To:
  "Body m \<noteq> [] \<Longrightarrow> ValidateEmail (From m) \<Longrightarrow> To m = ok @ addr # rest \<Longrightarrow>
   list_all ValidateEmail ok \<Longrightarrow> \<not> ValidateEmail addr \<Longrightarrow>
   ToBytes env m = (None, Some (Error (''invalid To email address: '' @ addr)))"
  by (simp add: ToBytes_def validate_To_first_invalid)

lemma ValidateEmail_examples:
  "ValidateEmail ''a@b.com''" "ValidateEmail ''c@d.com''" "ValidateEmail ''e@f.org''"
  "\<not> ValidateEmail ''invalid-email''" "\<not> ValidateEmail ''x y@z.com''"
  by (simp_all add: ValidateEmail_def MatchString_def emailRegex_def in_class_def)

text \<open>
  Claim C2: \<open>ToBytes\<close> checks its preconditions first and in this order, and the first
  one that fails decides the result, whatever the later ones would say: an empty \<open>To\<close>
  gives the error \<open>recipient list is empty\<close>; otherwise an empty \<open>Body\<close> gives
  \<open>email body is empty\<close>; otherwise an invalid \<open>From\<close> gives \<open>invalid From email address\<close>
  with that address; otherwise the first invalid entry of \<open>To\<close> gives
  \<open>invalid To email address\<close> with that entry. The four errors are distinct, and the
  returned buffer is nil, so no header is emitted.
\<close>

theorem C2_preconditions_in_order:
  "(To m = [] \<longrightarrow> ToBytes env m = (None, Some (Error ''recipient list is empty''))) \<and>
   (To m \<noteq> [] \<and> Body m = [] \<longrightarrow>
      ToBytes env m = (None, Some (Error ''email body is empty''))) \<and>
   (To m \<noteq> [] \<and> Body m \<noteq> [] \<and> \<not> ValidateEmail (From m) \<longrightarrow>
      ToBytes env m = (None, Some (Error (''invalid From email address: '' @ From m)))) \<and>
   (Body m \<noteq> [] \<and> ValidateEmail (From m) \<and> To m = ok @ addr # rest \<and>
    list_all ValidateEmail ok \<and> \<not> ValidateEmail addr \<longrightarrow>
      ToBytes env m = (None, Some (Error (''invalid To email address: '' @ addr)))) \<and>
   distinct [Error ''recipient list is empty'', Error ''email body is empty'',
             Error (''invalid From email address: '' @ a), Error (''invalid To email address: '' @ b)]"
  using ToBytes_empty_To ToBytes_empty_Body ToBytes_invalid_From ToBytes_invalid_To
  by simp

theorem C2_witness:
  "ToBytes (go_env rand_fixed fs_one_file) (mail_plain\<lparr>To := [], Body := [], From := ''invalid-email''\<rparr>)
     = (None, Some (Error ''recipient list is empty'')) \<and>
   ToBytes (go_env rand_fixed fs_one_file) (mail_plain\<lparr>Body := [], From := ''invalid-email''\<rparr>)
     = (None, Some (Error ''email body is empty'')) \<and>
   ToBytes (go_env rand_fixed fs_one_file) (mail_plain\<lparr>From := ''invalid-email'', To := [''x y@z.com'']\<rparr>)
     = (None, Some (Error ''invalid From email address: invalid-email'')) \<and>
   ToBytes (go_env rand_fixed fs_one_file) (mail_plain\<lparr>To := [''c@d.com'', ''x y@z.com'', ''invalid-email'']\<rparr>)
     = (None, Some (Error ''invalid To email address: x y@z.com''))"
  using
    C2_preconditions_in_order [of "mail_plain\<lparr>To := [], Body := [], From := ''invalid-email''\<rparr>"
      "go_env rand_fixed fs_one_file"]
    C2_preconditions_in_order [of "mail_plain\<lparr>Body := [], From := ''invalid-email''\<rparr>"
      "go_env rand_fixed fs_one_file"]
    C2_preconditions_in_order [of "mail_plain\<lparr>From := ''invalid-email'', To := [''x y@z.com'']\<rparr>"
      "go_env rand_fixed fs_one_file"]
    C2_preconditions_in_order [of "mail_plain\<lparr>To := [''c@d.com'', ''x y@z.com'', ''invalid-email'']\<rparr>"
      "go_env rand_fixed fs_one_file" "[''c@d.com'']" "''x y@z.com''" "[''invalid-email'']"]
  by (simp add: mail_plain_def ValidateEmail_examples)

lemma ToBytes_error_nil:
  "snd (ToBytes env m) \<noteq> None \<Longrightarrow> fst (ToBytes env m) = None"
  by (auto simp: ToBytes_def Let_def split: if_splits option.splits prod.splits)

text \<open>
  Claim C3: for every message and every environment, so whatever the quoted-printable
  writer and the file system do, a non-nil error of \<open>ToBytes\<close> comes with a nil buffer.
\<close>

theorem C3_no_buffer_with_error:
  "snd (ToBytes env m) \<noteq> None \<Longrightarrow> fst (ToBytes env m) = None"
  by (rule ToBytes_error_nil)

lemma ToBytes_qp_fails:
  "snd (ToBytes env_qp_fails mail_plain) = Some (Error ''short write'')"
  by (simp add: ToBytes_def env_qp_fails_def mail_plain_def Let_def ValidateEmail_examples
      write_body_def)

lemma ToBytes_missing_file:
  "snd (ToBytes (env_plain rand_fixed) (mail_plain\<lparr>Attachment := [att_in_memory, att_missing]\<rparr>))
     = Some (Error ''open: no such file'')"
  by (simp add: ToBytes_def env_plain_def mail_plain_def att_in_memory_def att_missing_def Let_def
      ValidateEmail_examples write_body_def writeBytes_closed_form writeFile_def fs_one_file_def)

theorem C3_witness:
  "snd (ToBytes env_qp_fails mail_plain) = Some (Error ''short write'') \<and>
   fst (ToBytes env_qp_fails mail_plain) = None \<and>
   snd (ToBytes (env_plain rand_fixed) (mail_plain\<lparr>Attachment := [att_in_memory, att_missing]\<rparr>))
     = Some (Error ''open: no such file'') \<and>
   fst (ToBytes (env_plain rand_fixed) (mail_plain\<lparr>Attachment := [att_in_memory, att_missing]\<rparr>))
     = None"
  using C3_no_buffer_with_error [of env_qp_fails mail_plain]
    C3_no_buffer_with_error [of "env_plain rand_fixed"
      "mail_plain\<lparr>Attachment := [att_in_memory, att_missing]\<rparr>"]
  by (simp add: ToBytes_qp_fails ToBytes_missing_file)

section \<open>The random source and the errors of \<open>ToBytes\<close>\<close>

lemma writeFile_error: "snd (writeFile env msg name) = snd (os_ReadFile env name)"
  by (cases "os_ReadFile env name")
     (auto simp: writeFile_def writeBytes_closed_form split: option.splits)

lemma write_inline_no_error: "snd (write_inline rb msg files) = None"
  by (induction files arbitrary: msg) (simp_all add: Let_def writeBytes_closed_form)

lemma write_attachments_error_indep:
  "snd (write_attachments env b msg files) = snd (write_attachments env b' msg' files)"
proof (induction files arbitrary: msg msg')
  case Nil
  then show ?case by simp
next
  case (Cons f files)
  show ?case
  proof (cases "0 < length (att_Body f)")
    case True
    then show ?thesis using Cons.IH by (simp add: Let_def writeBytes_closed_form)
  next
    case False
    show ?thesis
    proof (cases "os_ReadFile env (att_Name f)")
      case (Pair data err)
      then show ?thesis using False Cons.IH
        by (cases err) (simp_all add: Let_def writeFile_def writeBytes_closed_form)
    qed
  qed
qed

lemma write_attachments_error: "snd (write_attachments env b msg files) = attachments_error env files"
  unfolding attachments_error_def by (rule write_attachments_error_indep)

lemma write_body_error: "snd (write_body env mt body msg) = body_error env body"
  by (auto simp: write_body_def body_error_def Let_def split: prod.splits option.splits)

lemma ToBytes_error:
  "snd (ToBytes env m) =
     (if To m = [] then Some (Error ''recipient list is empty'')
      else if Body m = [] then Some (Error ''email body is empty'')
      else if \<not> ValidateEmail (From m)
           then Some (Error (''invalid From email address: '' @ From m))
      else case validate_To (To m) of
             Some err \<Rightarrow> Some err
           | None \<Rightarrow>
               (case body_error env (Body m) of
                  Some err \<Rightarrow> Some err
                | None \<Rightarrow> attachments_error env (Attachment m)))"
proof -
  have att_nil: "attachments_error env [] = None" by (simp add: attachments_error_def)
  have wb: "\<And>mt body msg x e. write_body env mt body msg = (x, e) \<Longrightarrow> e = body_error env body"
    using write_body_error by (metis snd_conv)
  have wi: "\<And>rb msg files x e. write_inline rb msg files = (x, e) \<Longrightarrow> e = None"
    using write_inline_no_error by (metis snd_conv)
  have wa: "\<And>b msg files x e. write_attachments env b msg files = (x, e) \<Longrightarrow>
      e = attachments_error env files"
    using write_attachments_error by (metis snd_conv)
  show ?thesis
    by (auto simp: ToBytes_def Let_def att_nil split: option.splits prod.splits dest!: wb wi wa)
qed

lemma writeFile_rand: "writeFile (env\<lparr>rand_Read := r\<rparr>) msg name = writeFile env msg name"
  by (simp add: writeFile_def)

lemma write_attachments_rand:
  "write_attachments (env\<lparr>rand_Read := r\<rparr>) b msg files = write_attachments env b msg files"
  by (induction files arbitrary: msg) (simp_all add: Let_def writeFile_rand)

lemma attachments_error_rand:
  "attachments_error (env\<lparr>rand_Read := r\<rparr>) files = attachments_error env files"
  by (simp add: attachments_error_def write_attachments_rand)

lemma body_error_rand: "body_error (env\<lparr>rand_Read := r\<rparr>) body = body_error env body"
  by (simp add: body_error_def split: option.splits)

lemma ToBytes_error_rand: "snd (ToBytes (env\<lparr>rand_Read := r\<rparr>) m) = snd (ToBytes env m)"
  by (simp only: ToBytes_error attachments_error_rand body_error_rand)

lemma generateBoundary_stored:
  "generateBoundary env k =
     ''boundary-'' @ Sprintf_x (take 16 (fst (rand_Read env k) @
                                         replicate (16 - length (fst (rand_Read env k))) 0))"
  by (cases "rand_Read env k") (simp add: generateBoundary_def)

text \<open>
  The run of \<open>generateBoundary\<close> and of \<open>ToBytes\<close> within the program: the program ends
  at the first call of \<open>rand.Read\<close> whose source fails, and a call that returns returns
  what the functions of the sections above compute.
\<close>

lemma generateBoundary_run_eq:
  "generateBoundary_run env k =
     (if snd (rand_Read env k) = None then Returns (generateBoundary env k) else Fatal)"
  by (cases "rand_Read env k")
     (auto simp: generateBoundary_run_def crypto_rand_Read_def generateBoundary_def)

lemma ToBytes_run_eq:
  "ToBytes_run env m =
     (if To m \<noteq> [] \<and> Body m \<noteq> [] \<and> ValidateEmail (From m) \<and> list_all ValidateEmail (To m) \<and>
         (snd (rand_Read env 0) \<noteq> None \<or> Inline m \<noteq> [] \<and> snd (rand_Read env 1) \<noteq> None)
      then Fatal else Returns (ToBytes env m))"
  by (auto simp: ToBytes_run_def ToBytes_def generateBoundary_run_eq Let_def
      validate_To_None [symmetric] split: option.splits prod.splits)

lemma reader_broken_run:
  "snd (rand_Read (go_env reader_broken fs_one_file) 0) = Some (Error ''no entropy'') \<and>
   ToBytes_run (go_env reader_broken fs_one_file) (mail_plain\<lparr>Attachment := [att_in_memory]\<rparr>) = Fatal"
  by code_simp

lemma reader_examples:
  "snd (rand_Read (go_env reader_broken fs_one_file) k) = Some (Error ''no entropy'')"
  "snd (rand_Read (go_env reader_breaks_later fs_one_file) 0) = None"
  "snd (rand_Read (go_env reader_breaks_later fs_one_file) (Suc 0)) = Some (Error ''no entropy'')"
  "snd (rand_Read (go_env reader_counting fs_one_file) k) = None"
  by (simp_all add: go_env_def reader_broken_def reader_breaks_later_def reader_counting_def)

lemma reader_counting_hex:
  "''boundary-'' @ Sprintf_x (take 16 (fst (rand_Read (go_env reader_counting fs_one_file) 1) @
       replicate (16 - length (fst (rand_Read (go_env reader_counting fs_one_file) 1))) 0))
   = ''boundary-101112131415161718191a1b1c1d1e1f''"
  by code_simp

text \<open>
  Claim C5, as stated: a failure of the random source is passed on to the caller of
  \<open>ToBytes\<close> as an error. It fails for a source that fails on the first request and a
  message that passes the checks of the arguments: \<open>rand.Read\<close> ends the program inside
  the first \<open>generateBoundary\<close>, so \<open>ToBytes\<close> does not return, and its caller receives no
  error and no other result.
\<close>

theorem C5_counterexample:
  "snd (rand_Read (go_env reader_broken fs_one_file) 0) = Some (Error ''no entropy'') \<and>
   ToBytes_run (go_env reader_broken fs_one_file) (mail_plain\<lparr>Attachment := [att_in_memory]\<rparr>) = Fatal \<and>
   (\<nexists>r. ToBytes_run (go_env reader_broken fs_one_file) (mail_plain\<lparr>Attachment := [att_in_memory]\<rparr>)
           = Returns r)"
  using reader_broken_run by simp

text \<open>
  Claim C5, amended: a failure of the random source is fatal for the program, not an
  error of the call. \<open>ToBytes\<close> draws the first boundary once the checks of its arguments
  have passed, and the second when there are inline files; if the source fails on a
  request that is made, the program ends there and \<open>ToBytes\<close> does not return. In every
  other case \<open>ToBytes\<close> returns what it computes from the bytes supplied, so a message
  that fails a check gets the error of that check from a failing source too. The error
  that \<open>ToBytes\<close> returns does not depend on the random source, so none of its errors is
  a failure of the source. \<open>generateBoundary\<close> has no error result: it returns
  \<open>boundary-\<close> followed by the hexadecimal rendering of the buffer that the source
  filled, and it does not return when the source fails; it never falls back to another
  source.
\<close>

theorem C5_random_failure_is_fatal:
  "ToBytes_run env m =
     (if To m \<noteq> [] \<and> Body m \<noteq> [] \<and> ValidateEmail (From m) \<and> list_all ValidateEmail (To m) \<and>
         (snd (rand_Read env 0) \<noteq> None \<or> Inline m \<noteq> [] \<and> snd (rand_Read env 1) \<noteq> None)
      then Fatal else Returns (ToBytes env m)) \<and>
   snd (ToBytes (env\<lparr>rand_Read := src\<rparr>) m) = snd (ToBytes env m) \<and>
   generateBoundary_run env k =
     (if snd (rand_Read env k) \<noteq> None then Fatal
      else Returns (''boundary-'' @ Sprintf_x (take 16 (fst (rand_Read env k) @
                                    replicate (16 - length (fst (rand_Read env k))) 0))))"
  using ToBytes_run_eq ToBytes_error_rand generateBoundary_run_eq generateBoundary_stored
  by simp

theorem C5_witness:
  "ToBytes_run (go_env reader_broken fs_one_file) mail_plain = Fatal \<and>
   ToBytes_run (go_env reader_breaks_later fs_one_file) (mail_plain\<lparr>Inline := [inline_logo]\<rparr>) = Fatal \<and>
   ToBytes_run (go_env reader_breaks_later fs_one_file) mail_plain
     = Returns (ToBytes (go_env reader_breaks_later fs_one_file) mail_plain) \<and>
   ToBytes_run (go_env reader_broken fs_one_file) (mail_plain\<lparr>To := []\<rparr>)
     = Returns (ToBytes (go_env reader_broken fs_one_file) (mail_plain\<lparr>To := []\<rparr>)) \<and>
   snd (ToBytes ((go_env reader_counting fs_one_file)\<lparr>rand_Read := reader_breaks_later\<rparr>) mail_plain)
     = snd (ToBytes (go_env reader_counting fs_one_file) mail_plain) \<and>
   generateBoundary_run (go_env reader_counting fs_one_file) 1
     = Returns ''boundary-101112131415161718191a1b1c1d1e1f'' \<and>
   generateBoundary_run (go_env reader_broken fs_one_file) 0 = Fatal"
proof (intro conjI)
  note run = C5_random_failure_is_fatal [THEN conjunct1]
  note gen = C5_random_failure_is_fatal [THEN conjunct2, THEN conjunct2]
  show "ToBytes_run (go_env reader_broken fs_one_file) mail_plain = Fatal"
    unfolding run by (simp add: reader_examples mail_plain_def ValidateEmail_examples)
  show "ToBytes_run (go_env reader_breaks_later fs_one_file) (mail_plain\<lparr>Inline := [inline_logo]\<rparr>)
      = Fatal"
    unfolding run by (simp add: reader_examples mail_plain_def ValidateEmail_examples)
  show "ToBytes_run (go_env reader_breaks_later fs_one_file) mail_plain
      = Returns (ToBytes (go_env reader_breaks_later fs_one_file) mail_plain)"
    unfolding run by (simp add: reader_examples mail_plain_def)
  show "ToBytes_run (go_env reader_broken fs_one_file) (mail_plain\<lparr>To := []\<rparr>)
      = Returns (ToBytes (go_env reader_broken fs_one_file) (mail_plain\<lparr>To := []\<rparr>))"
    unfolding run by simp
  show "snd (ToBytes ((go_env reader_counting fs_one_file)\<lparr>rand_Read := reader_breaks_later\<rparr>)
               mail_plain)
      = snd (ToBytes (go_env reader_counting fs_one_file) mail_plain)"
    by (rule C5_random_failure_is_fatal [THEN conjunct2, THEN conjunct1])
  show "generateBoundary_run (go_env reader_counting fs_one_file) 1
      = Returns ''boundary-101112131415161718191a1b1c1d1e1f''"
    unfolding gen reader_counting_hex by (simp only: reader_examples if_False simp_thms)
  show "generateBoundary_run (go_env reader_broken fs_one_file) 0 = Fatal"
    unfolding gen by (simp add: reader_examples)
qed

section \<open>The two variants of \<open>ToBytes\<close>\<close>

lemma ToBytes_go_eq:
  assumes "same_message g m" and "Inline m = []"
    and "ValidateEmail (From m)" and "list_all ValidateEmail (To m)"
  shows "ToBytes_go env g = ToBytes env m"
proof -
  have v: "validate_To (To m) = None" using assms(4) by (simp add: validate_To_None)
  show ?thesis
    using assms(1,2,3) v
    by (auto simp: ToBytes_go_def ToBytes_def same_message_def Let_def
        split: prod.splits option.splits)
qed

lemma ToBytes_go_eq_empty:
  assumes "same_message g m" and "To m = [] \<or> Body m = []"
  shows "ToBytes_go env g = ToBytes env m"
  using assms by (auto simp: ToBytes_go_def ToBytes_def same_message_def)

text \<open>
  Claim C10: let a message of \<open>mail.go\<close> and a message of the validating variant agree on
  their common fields, and let both run in the same environment, so with the same
  outcomes of the random source. If the message has no inline files and \<open>From\<close> and every
  entry of \<open>To\<close> are valid, the two variants of \<open>ToBytes\<close> return the same result, bytes and
  error alike. If \<open>To\<close> or \<open>Body\<close> is empty they return the same error, valid addresses or
  not.
\<close>

theorem C10_variants_agree:
  "(same_message g m \<and> Inline m = [] \<and> ValidateEmail (From m) \<and> list_all ValidateEmail (To m)
      \<longrightarrow> ToBytes_go env g = ToBytes env m) \<and>
   (same_message g m \<and> (To m = [] \<or> Body m = []) \<longrightarrow> ToBytes_go env g = ToBytes env m)"
  using ToBytes_go_eq ToBytes_go_eq_empty by blast

theorem C10_witness:
  "ToBytes_go (go_env rand_fixed fs_one_file) (mail_go_plain\<lparr>go_Attachment := [att_on_disk, att_in_memory]\<rparr>)
     = ToBytes (go_env rand_fixed fs_one_file) (mail_plain\<lparr>Attachment := [att_on_disk, att_in_memory]\<rparr>) \<and>
   ToBytes_go (go_env rand_fixed fs_one_file) (mail_go_plain\<lparr>go_From := ''invalid-email'', go_Body := []\<rparr>)
     = ToBytes (go_env rand_fixed fs_one_file)
         (mail_plain\<lparr>From := ''invalid-email'', Body := [], Inline := [inline_logo]\<rparr>)"
  using
    C10_variants_agree [of "mail_go_plain\<lparr>go_Attachment := [att_on_disk, att_in_memory]\<rparr>"
      "mail_plain\<lparr>Attachment := [att_on_disk, att_in_memory]\<rparr>" "go_env rand_fixed fs_one_file"]
    C10_variants_agree [of "mail_go_plain\<lparr>go_From := ''invalid-email'', go_Body := []\<rparr>"
      "mail_plain\<lparr>From := ''invalid-email'', Body := [], Inline := [inline_logo]\<rparr>"
      "go_env rand_fixed fs_one_file"]
  by (simp add: same_message_def mail_go_plain_def mail_plain_def ValidateEmail_examples)

section \<open>\<open>ToBytes\<close> produces the layout\<close>

lemma write_body_ok:
  "write_body env mt body msg = (x, None) \<Longrightarrow> x = msg @ body_part env mt body"
  by (auto simp: write_body_def body_part_def qp_segment_def charset_def Let_def
      split: prod.splits option.splits)

lemma write_inline_layout:
  "write_inline rb msg files = (msg @ concat (map (inline_part rb) files), None)"
  by (induction files arbitrary: msg)
     (simp_all add: Let_def writeBytes_closed_form inline_part_def base64_part_def
        content_type_or_default_def)

lemma write_attachments_ok:
  "write_attachments env b msg files = (x, None) \<Longrightarrow>
   x = msg @ concat (map (attachment_part env b) files)"
proof (induction files arbitrary: msg)
  case Nil
  then show ?case by simp
next
  case (Cons f files)
  define msg4 where "msg4 = msg @ CRLF @ ''--'' @ b @ CRLF @
     ''Content-Type: '' @ content_type_or_default (att_ContentType f) @
        ''; name='' @ DQ @ att_Name f @ DQ @ CRLF @
     ''Content-Transfer-Encoding: base64'' @ CRLF @
     ''Content-Disposition: attachment; filename='' @ DQ @ att_Name f @ DQ @ CRLF"
  define step where "step = (if 0 < length (att_Body f) then writeBytes msg4 (att_Body f)
               else writeFile env msg4 (att_Name f))"
  have unfold: "write_attachments env b msg (f # files) =
     (case step of (msg5, Some err) \<Rightarrow> (msg5, Some err)
                 | (msg5, None) \<Rightarrow> write_attachments env b msg5 files)"
    by (simp add: step_def msg4_def Let_def content_type_or_default_def)
  obtain msg5 e where s: "step = (msg5, e)" by (cases step)
  have e: "e = None" using Cons.prems unfold s by (cases e) simp_all
  have rest: "write_attachments env b msg5 files = (x, None)"
    using Cons.prems unfold s e by simp
  have msg5: "msg5 = msg4 @ base64_part (attachment_content env f)"
  proof (cases "0 < length (att_Body f)")
    case True
    then show ?thesis using s
      by (simp add: step_def writeBytes_closed_form base64_part_def attachment_content_def)
  next
    case False
    then show ?thesis using s e
      by (cases "os_ReadFile env (att_Name f)")
         (auto simp: step_def writeFile_def writeBytes_closed_form base64_part_def
            attachment_content_def split: option.splits)
  qed
  show ?case
    using Cons.IH [OF rest] msg5 by (simp add: msg4_def attachment_part_def)
qed

lemma ToBytes_layout:
  "ToBytes env m = (Some out, None) \<Longrightarrow> out = layout env m"
  by (auto simp: ToBytes_def layout_def message_headers_def Let_def write_inline_layout
      split: if_splits option.splits prod.splits dest!: write_body_ok write_attachments_ok)

section \<open>Messages without parts, and the header block\<close>

lemma ToBytes_succeeds:
  "snd (ToBytes env m) = None \<Longrightarrow> ToBytes env m = (Some (layout env m), None)"
proof -
  assume n: "snd (ToBytes env m) = None"
  have "fst (ToBytes env m) \<noteq> None"
    using n by (auto simp: ToBytes_def Let_def split: if_splits option.splits prod.splits)
  then obtain out where "ToBytes env m = (Some out, None)"
    using n by (cases "ToBytes env m") auto
  then show ?thesis using ToBytes_layout by simp
qed

lemma go_body_error: "body_error (go_env rnd fs) body = None"
  by (simp add: body_error_def go_env_def quotedprintable_Write_def quotedprintable_Close_def)



lemma writeQString_appends: "writeQString buf s = buf @ writeQString [] s"
proof (induction s arbitrary: buf)
  case Nil
  then show ?case by simp
next
  case (Cons b s)
  show ?case
    using Cons.IH [of "buf @ ''_''"] Cons.IH [of "buf @ [b]"] Cons.IH [of "buf @ hex_escape b"]
      Cons.IH [of "''_''"] Cons.IH [of "[b]"] Cons.IH [of "hex_escape b"]
    by simp
qed

lemma qEncode_appends: "\<exists>t. qEncode cs s n buf = buf @ t"
proof (induction cs s n buf rule: qEncode.induct)
  case (1 cs s currentLen buf)
  show ?case
  proof (cases "s = []")
    case True
    then show ?thesis by (subst qEncode.simps) simp
  next
    case False
    define runeLen where "runeLen = fst (rune_step s)"
    define encLen where "encLen = snd (rune_step s)"
    define split where "split = (maxContentLen < currentLen + encLen)"
    define buf1 where "buf1 = (if split then splitWord buf cs else buf)"
    define currentLen1 where "currentLen1 = (if split then 0 else currentLen)"
    define buf2 where "buf2 = writeQString buf1 (take runeLen s)"
    have step: "qEncode cs s currentLen buf = qEncode cs (drop runeLen s) (currentLen1 + encLen) buf2"
      using False
      by (subst qEncode.simps)
         (simp add: Let_def runeLen_def encLen_def split_def buf1_def currentLen1_def buf2_def)
    obtain t where t: "qEncode cs (drop runeLen s) (currentLen1 + encLen) buf2 = buf2 @ t"
      using "1.IH" [OF False runeLen_def encLen_def split_def buf1_def currentLen1_def buf2_def]
      by blast
    obtain u where u: "buf1 = buf @ u"
      by (cases split) (simp_all add: buf1_def splitWord_def openWord_def closeWord_def)
    have "buf2 = buf @ u @ writeQString [] (take runeLen s)"
      unfolding buf2_def u using writeQString_appends [of "buf @ u"] by simp
    then show ?thesis using step t by simp
  qed
qed

lemma encodeWord_shape: "\<exists>w. encodeWord ''utf-8'' s = ''=?utf-8?q?'' @ w @ ''?=''"
proof -
  obtain t where "qEncode ''utf-8'' s 0 (openWord [] ''utf-8'') = openWord [] ''utf-8'' @ t"
    using qEncode_appends by blast
  then have "encodeWord ''utf-8'' s = ''=?utf-8?q?'' @ t @ ''?=''"
    by (simp add: encodeWord_def closeWord_def openWord_def)
  then show ?thesis by blast
qed

lemma layout_starts:
  "\<exists>rest. layout env m = message_headers m @ ''Content-Type: '' @ rest"
proof (cases "Attachment m \<noteq> [] \<or> Inline m \<noteq> []")
  case True
  then show ?thesis by (simp add: layout_def Let_def)
next
  case False
  then show ?thesis by (simp add: layout_def Let_def body_part_def)
qed

section \<open>Line lengths of the encoded parts\<close>

lemma lines_CRLF_line:
  "CHR 0x0D \<notin> set l \<Longrightarrow> lines_CRLF (l @ CRLF @ rest) = l # lines_CRLF rest"
proof (induction l)
  case Nil
  then show ?case by (simp add: CRLF_def)
next
  case (Cons x l)
  obtain d s where ds: "l @ CRLF @ rest = d # s" by (cases "l @ CRLF @ rest") (simp_all add: CRLF_def)
  have "lines_CRLF ((x # l) @ CRLF @ rest) = cons_first x (lines_CRLF (l @ CRLF @ rest))"
    using Cons.prems ds by auto
  then show ?case using Cons by (simp add: cons_first_def)
qed

lemma lines_CRLF_last: "CHR 0x0D \<notin> set l \<Longrightarrow> lines_CRLF l = [l]"
proof (induction l rule: lines_CRLF.induct)
  case (1 c d s)
  then show ?case by (auto simp add: cons_first_def)
qed simp_all

lemma lines_CRLF_whole:
  "list_all line_ok ls \<Longrightarrow> CHR 0x0D \<notin> set l \<Longrightarrow>
   lines_CRLF (concat (map (\<lambda>l. l @ CRLF) ls) @ l) = ls @ [l]"
proof (induction ls)
  case Nil
  then show ?case by (simp add: lines_CRLF_last)
next
  case (Cons a ls)
  then have "CHR 0x0D \<notin> set a" by (simp add: line_ok_def)
  then show ?case
    using Cons lines_CRLF_line [of a "concat (map (\<lambda>l. l @ CRLF) ls) @ l"] by simp
qed

lemma whole_lines_then_last:
  assumes "whole_lines out" and "length l \<le> 76" and "CHR 0x0D \<notin> set l"
  shows "lines_within 76 (out @ l)"
proof -
  obtain ls where ls: "out = concat (map (\<lambda>l. l @ CRLF) ls)" "list_all line_ok ls"
    using assms(1) unfolding whole_lines_def by blast
  have "lines_CRLF (out @ l) = ls @ [l]"
    unfolding ls(1) by (rule lines_CRLF_whole [OF ls(2) assms(3)])
  then show ?thesis
    using ls(2) assms(2) by (simp add: lines_within_def line_ok_def list_all_iff)
qed

lemma whole_lines_Nil: "whole_lines []"
  unfolding whole_lines_def by (rule exI [of _ "[]"]) simp

lemma whole_lines_append: "whole_lines a \<Longrightarrow> whole_lines b \<Longrightarrow> whole_lines (a @ b)"
proof -
  assume "whole_lines a" and "whole_lines b"
  then obtain la lb where
    "a = concat (map (\<lambda>l. l @ CRLF) la)" "list_all line_ok la"
    "b = concat (map (\<lambda>l. l @ CRLF) lb)" "list_all line_ok lb"
    unfolding whole_lines_def by blast
  then have "a @ b = concat (map (\<lambda>l. l @ CRLF) (la @ lb)) \<and> list_all line_ok (la @ lb)"
    by simp
  then show ?thesis unfolding whole_lines_def by blast
qed

lemma whole_lines_single: "line_ok l \<Longrightarrow> whole_lines (l @ CRLF)"
proof -
  assume "line_ok l"
  then have "l @ CRLF = concat (map (\<lambda>l. l @ CRLF) [l]) \<and> list_all line_ok [l]" by simp
  then show ?thesis unfolding whole_lines_def by blast
qed

lemma high_nibble_less: "unat (drop_bit 4 (x :: byte)) < 16"
proof -
  have "unat x < 2 ^ 8" using unsigned_less [of x] by simp
  then have "unat x div 16 < 16" by simp
  then show ?thesis by (simp add: unat_drop_bit_eq drop_bit_eq_div unat_div)
qed

lemma low_nibble_less: "unat ((x :: byte) AND 0x0F) < 16"
proof -
  have "x AND 0x0F \<le> 0x0F" by (rule word_and_le1)
  then have "unat (x AND 0x0F) \<le> unat (0x0F :: byte)" by (simp add: word_le_nat_alt)
  then show ?thesis by simp
qed

lemma upperhex_nth: "k < 16 \<Longrightarrow> upperhex ! k \<in> set upperhex"
  by (rule nth_mem) (simp add: upperhex_def)

lemma CR_not_upperhex: "CHR 0x0D \<notin> set upperhex"
  by (simp add: upperhex_def)

lemma hex_escape_length: "length (hex_escape b) = 3"
  by (simp add: hex_escape_def)

lemma hex_escape_no_CR: "CHR 0x0D \<notin> set (hex_escape b)"
  using upperhex_nth [OF high_nibble_less, of "of_char b"] upperhex_nth [OF low_nibble_less, of "of_char b"]
    CR_not_upperhex
  by (auto simp: hex_escape_def)

lemma insertCRLF_ok:
  assumes "length (qp_line w) \<le> 76" and "CHR 0x0D \<notin> set (qp_line w)"
  shows "qp_line (fst (insertCRLF w)) = []" and "whole_lines (snd (insertCRLF w))"
proof -
  show "qp_line (fst (insertCRLF w)) = []" by (simp add: insertCRLF_def flush_def)
  have "line_ok (qp_line w)" using assms by (simp add: line_ok_def)
  then show "whole_lines (snd (insertCRLF w))"
    using whole_lines_single by (simp add: insertCRLF_def flush_def)
qed

lemma insertSoftLineBreak_ok:
  assumes "writer_inv w"
  shows "qp_line (fst (insertSoftLineBreak w)) = []" and "whole_lines (snd (insertSoftLineBreak w))"
proof -
  have a: "length (qp_line (w\<lparr>qp_line := qp_line w @ ''=''\<rparr>)) \<le> 76"
    and b: "CHR 0x0D \<notin> set (qp_line (w\<lparr>qp_line := qp_line w @ ''=''\<rparr>))"
    using assms by (simp_all add: writer_inv_def)
  show "qp_line (fst (insertSoftLineBreak w)) = []"
    unfolding insertSoftLineBreak_def by (rule insertCRLF_ok(1) [OF a b])
  show "whole_lines (snd (insertSoftLineBreak w))"
    unfolding insertSoftLineBreak_def by (rule insertCRLF_ok(2) [OF a b])
qed

lemma encode_ok:
  assumes "writer_inv w"
  shows "writer_inv (fst (encode w b))" and "whole_lines (snd (encode w b))"
proof -
  show "writer_inv (fst (encode w b))"
  proof (cases "lineMaxLen - 1 - length (qp_line w) < 3")
    case True
    then show ?thesis
      using insertSoftLineBreak_ok(1) [OF assms] hex_escape_no_CR [of b]
      by (simp add: encode_def writer_inv_def hex_escape_length split_beta)
  next
    case False
    then show ?thesis
      using assms hex_escape_no_CR [of b]
      by (simp add: encode_def writer_inv_def hex_escape_length lineMaxLen_def)
  qed
  show "whole_lines (snd (encode w b))"
    using insertSoftLineBreak_ok(2) [OF assms] whole_lines_Nil
    by (simp add: encode_def split_beta)
qed

lemma checkLastByte_ok:
  assumes "writer_inv w"
  shows "writer_inv (fst (checkLastByte w))" and "whole_lines (snd (checkLastByte w))"
proof -
  have inv': "writer_inv (w\<lparr>qp_line := butlast (qp_line w)\<rparr>)"
    using assms by (auto simp: writer_inv_def dest: in_set_butlastD)
  show "writer_inv (fst (checkLastByte w))"
    using assms encode_ok(1) [OF inv'] by (simp add: checkLastByte_def)
  show "whole_lines (snd (checkLastByte w))"
    using encode_ok(2) [OF inv'] whole_lines_Nil by (simp add: checkLastByte_def)
qed

lemma writer_inv_cr: "writer_inv (w\<lparr>qp_cr := c\<rparr>) = writer_inv w"
  by (simp add: writer_inv_def)

lemma write_byte_ok:
  assumes "writer_inv w"
  shows "writer_inv (fst (write_byte w b))" and "whole_lines (snd (write_byte w b))"
proof -
  let ?w1 = "if b = CHR 0x0D then w\<lparr>qp_cr := True\<rparr> else w"
  have inv1: "writer_inv ?w1" using assms by (simp add: writer_inv_cr)
  let ?w2 = "fst (checkLastByte ?w1)"
  have inv2: "writer_inv ?w2" by (rule checkLastByte_ok(1) [OF inv1])
  have l2: "length (qp_line ?w2) \<le> 76" and c2: "CHR 0x0D \<notin> set (qp_line ?w2)"
    using inv2 by (simp_all add: writer_inv_def)
  have hard: "writer_inv (fst (insertCRLF ?w2))"
    using insertCRLF_ok(1) [OF l2 c2] by (simp add: writer_inv_def)
  have hard_out: "whole_lines (snd (checkLastByte ?w1) @ snd (insertCRLF ?w2))"
    by (rule whole_lines_append [OF checkLastByte_ok(2) [OF inv1] insertCRLF_ok(2) [OF l2 c2]])
  show "writer_inv (fst (write_byte w b))"
  proof (cases "b = CHR 0x0A \<or> b = CHR 0x0D")
    case True
    then show ?thesis
      using assms hard by (auto simp: write_byte_def Let_def writer_inv_cr split_beta)
  next
    case False
    show ?thesis
    proof (cases "length (qp_line w) = lineMaxLen - 1")
      case True
      then show ?thesis
        using False insertSoftLineBreak_ok(1) [OF assms]
        by (auto simp: write_byte_def writer_inv_def split_beta)
    next
      case False
      then show ?thesis
        using \<open>\<not> (b = CHR 0x0A \<or> b = CHR 0x0D)\<close> assms
        by (auto simp: write_byte_def writer_inv_def lineMaxLen_def)
    qed
  qed
  show "whole_lines (snd (write_byte w b))"
    using hard_out insertSoftLineBreak_ok(2) [OF assms] whole_lines_Nil
    by (auto simp: write_byte_def Let_def split_beta)
qed

lemma Writer_Write_ok:
  "writer_inv w \<Longrightarrow> writer_inv (fst (Writer_Write w p)) \<and> whole_lines (snd (Writer_Write w p))"
proof (induction p arbitrary: w)
  case Nil
  then show ?case by (simp add: whole_lines_Nil)
next
  case (Cons b p)
  let ?step = "if unescaped b then write_byte w b else encode w b"
  have inv1: "writer_inv (fst ?step)"
    using write_byte_ok(1) [OF Cons.prems] encode_ok(1) [OF Cons.prems] by simp
  have out1: "whole_lines (snd ?step)"
    using write_byte_ok(2) [OF Cons.prems] encode_ok(2) [OF Cons.prems] by simp
  have rest: "writer_inv (fst (Writer_Write (fst ?step) p)) \<and>
              whole_lines (snd (Writer_Write (fst ?step) p))"
    by (rule Cons.IH [OF inv1])
  have "Writer_Write w (b # p) =
      (fst (Writer_Write (fst ?step) p), snd ?step @ snd (Writer_Write (fst ?step) p))"
    by (simp add: Let_def split_beta)
  then show ?case using rest whole_lines_append [OF out1] by simp
qed

lemma NewWriter_inv: "writer_inv NewWriter"
  by (simp add: writer_inv_def NewWriter_def)

lemma quotedprintable_lines:
  "lines_within 76 (fst (quotedprintable_Write body) @ fst (quotedprintable_Close body))"
proof -
  let ?w = "fst (Writer_Write NewWriter body)"
  have w: "writer_inv ?w" and out: "whole_lines (snd (Writer_Write NewWriter body))"
    using Writer_Write_ok [OF NewWriter_inv] by simp_all
  let ?w1 = "fst (checkLastByte ?w)"
  have w1: "writer_inv ?w1" by (rule checkLastByte_ok(1) [OF w])
  have pre: "whole_lines (snd (Writer_Write NewWriter body) @ snd (checkLastByte ?w))"
    by (rule whole_lines_append [OF out checkLastByte_ok(2) [OF w]])
  have close: "snd (Writer_Close ?w) = snd (checkLastByte ?w) @ qp_line ?w1"
    by (simp add: Writer_Close_def flush_def split_beta Let_def)
  have "lines_within 76 ((snd (Writer_Write NewWriter body) @ snd (checkLastByte ?w)) @ qp_line ?w1)"
    using w1 by (intro whole_lines_then_last [OF pre]) (simp_all add: writer_inv_def)
  then show ?thesis
    by (simp add: quotedprintable_Write_def quotedprintable_Close_def close)
qed

lemma wrap76_lines: "CHR 0x0D \<notin> set s \<Longrightarrow> lines_within 76 (wrap76 s)"
proof (induction s rule: wrap76.induct)
  case (1 s)
  show ?case
  proof (cases "length s < 76")
    case True
    then show ?thesis
      using "1.prems" by (subst wrap76.simps) (simp add: lines_within_def lines_CRLF_last)
  next
    case False
    have a: "CHR 0x0D \<notin> set (take 76 s)" using "1.prems" by (auto dest: in_set_takeD)
    have b: "CHR 0x0D \<notin> set (drop 76 s)" using "1.prems" by (auto dest: in_set_dropD)
    have "lines_CRLF (take 76 s @ CRLF @ wrap76 (drop 76 s)) =
          take 76 s # lines_CRLF (wrap76 (drop 76 s))"
      by (rule lines_CRLF_line [OF a])
    then show ?thesis
      using False "1.IH" [OF False b] by (subst wrap76.simps) (simp add: lines_within_def)
  qed
qed

lemma base64_part_lines: "lines_within 76 (base64_part content)"
proof -
  have "lines_CRLF ([] @ CRLF @ wrap76 (base64_Encode content)) =
        [] # lines_CRLF (wrap76 (base64_Encode content))"
    by (rule lines_CRLF_line) simp
  then show ?thesis
    using wrap76_lines [OF CR_not_base64, of content]
    by (simp add: base64_part_def lines_within_def)
qed

lemma go_qp_segment:
  "qp_segment (go_env rnd fs) body =
     fst (quotedprintable_Write body) @ fst (quotedprintable_Close body)"
  by (simp add: qp_segment_def go_env_def)

text \<open>
  Claim C8: let \<open>ToBytes\<close> assemble a message, with the text encoder of the standard
  library. Its output is the layout, whose encoded parts are the quoted-printable body
  and one base64 part for every inline file and every attachment. In each of these
  parts every line has at most 76 characters, the CRLF that ends it not counted.
\<close>

theorem C8_encoded_lines_within_76:
  "(ToBytes (go_env rnd fs) m = (Some out, None) \<longrightarrow> out = layout (go_env rnd fs) m) \<and>
   lines_within 76 (qp_segment (go_env rnd fs) (Body m)) \<and>
   list_all (\<lambda>f. lines_within 76 (base64_part (inl_Body f))) (Inline m) \<and>
   list_all (\<lambda>f. lines_within 76 (base64_part (attachment_content (go_env rnd fs) f)))
     (Attachment m)"
  using ToBytes_layout [of "go_env rnd fs" m out]
  by (simp add: go_qp_segment quotedprintable_lines base64_part_lines list_all_iff)

lemma mail_long_succeeds:
  "ToBytes (go_env rand_fixed fs_one_file) mail_long =
     (Some (layout (go_env rand_fixed fs_one_file) mail_long), None)"
proof -
  have att: "attachments_error (go_env rand_fixed fs_one_file) (Attachment mail_long) = None"
    by (simp add: attachments_error_def mail_long_def mail_plain_def Let_def
        writeBytes_closed_form)
  have pre: "To mail_long \<noteq> []" "Body mail_long \<noteq> []" "ValidateEmail (From mail_long)"
    "validate_To (To mail_long) = None"
    by (simp_all add: mail_long_def mail_plain_def ValidateEmail_examples)
  have "snd (ToBytes (go_env rand_fixed fs_one_file) mail_long) = None"
    unfolding ToBytes_error by (simp add: pre att go_body_error)
  then show ?thesis by (rule ToBytes_succeeds)
qed

lemma mail_long_qp_lines:
  "lines_CRLF (qp_segment (go_env rand_fixed fs_one_file) (Body mail_long)) =
     [replicate 75 (CHR ''a'') @ ''='', replicate 25 (CHR ''a'')]"
  by code_simp

theorem C8_witness:
  "ToBytes (go_env rand_fixed fs_one_file) mail_long =
     (Some (layout (go_env rand_fixed fs_one_file) mail_long), None) \<and>
   lines_CRLF (qp_segment (go_env rand_fixed fs_one_file) (Body mail_long)) =
     [replicate 75 (CHR ''a'') @ ''='', replicate 25 (CHR ''a'')] \<and>
   lines_within 76 (qp_segment (go_env rand_fixed fs_one_file) (Body mail_long)) \<and>
   list_all (\<lambda>f. lines_within 76 (base64_part (attachment_content (go_env rand_fixed fs_one_file) f)))
     (Attachment mail_long)"
  using C8_encoded_lines_within_76 [of rand_fixed fs_one_file mail_long
      "layout (go_env rand_fixed fs_one_file) mail_long"]
    mail_long_succeeds mail_long_qp_lines
  by (simp add: mail_long_def)

section \<open>The header lines hold no line break\<close>

lemma local_char_not_CR: "local_char c \<Longrightarrow> c \<noteq> CHR 0x0D"
  by (auto simp: local_char_def letter_def digit_def)

lemma domain_char_not_CR: "domain_char c \<Longrightarrow> c \<noteq> CHR 0x0D"
  by (auto simp: domain_char_def label_char_def letter_def digit_def)

lemma letter_not_CR: "letter c \<Longrightarrow> c \<noteq> CHR 0x0D"
  by (auto simp: letter_def)

lemma ValidateEmail_no_CR: "ValidateEmail s \<Longrightarrow> CHR 0x0D \<notin> set s"
proof -
  assume "ValidateEmail s"
  then obtain l d t where s: "s = l @ ''@'' @ d @ ''.'' @ t"
    and c: "list_all local_char l" "list_all domain_char d" "list_all letter t"
    unfolding ValidateEmail_accepted accepted_address_def by blast
  have "CHR 0x0D \<notin> set l" using c(1) local_char_not_CR by (auto simp: list_all_iff)
  moreover have "CHR 0x0D \<notin> set d" using c(2) domain_char_not_CR by (auto simp: list_all_iff)
  moreover have "CHR 0x0D \<notin> set t" using c(3) letter_not_CR by (auto simp: list_all_iff)
  ultimately show ?thesis unfolding s by simp
qed

lemma strings_Join_no_CR:
  "list_all (\<lambda>e. CHR 0x0D \<notin> set e) es \<Longrightarrow> CHR 0x0D \<notin> set sep \<Longrightarrow>
   CHR 0x0D \<notin> set (strings_Join es sep)"
  by (induction es sep rule: strings_Join.induct) simp_all

lemma writeQString_no_CR:
  "CHR 0x0D \<notin> set buf \<Longrightarrow> CHR 0x0D \<notin> set (writeQString buf s)"
proof (induction s arbitrary: buf)
  case Nil
  then show ?case by simp
next
  case (Cons b s)
  have "CHR 0x0D \<notin> set (buf @ ''_'')" and "CHR 0x0D \<notin> set (buf @ hex_escape b)"
    using Cons.prems hex_escape_no_CR by simp_all
  moreover have "CHR ''!'' \<le> b \<Longrightarrow> CHR 0x0D \<notin> set (buf @ [b])"
    using Cons.prems by auto
  ultimately show ?case using Cons.IH by simp
qed

lemma qEncode_no_CR:
  "CHR 0x0D \<notin> set cs \<Longrightarrow> CHR 0x0D \<notin> set buf \<Longrightarrow> CHR 0x0D \<notin> set (qEncode cs s n buf)"
proof (induction cs s n buf rule: qEncode.induct)
  case (1 cs s currentLen buf)
  show ?case
  proof (cases "s = []")
    case True
    then show ?thesis using "1.prems" by (subst qEncode.simps) simp
  next
    case False
    define runeLen where "runeLen = fst (rune_step s)"
    define encLen where "encLen = snd (rune_step s)"
    define split where "split = (maxContentLen < currentLen + encLen)"
    define buf1 where "buf1 = (if split then splitWord buf cs else buf)"
    define currentLen1 where "currentLen1 = (if split then 0 else currentLen)"
    define buf2 where "buf2 = writeQString buf1 (take runeLen s)"
    have step: "qEncode cs s currentLen buf = qEncode cs (drop runeLen s) (currentLen1 + encLen) buf2"
      using False
      by (subst qEncode.simps)
         (simp add: Let_def runeLen_def encLen_def split_def buf1_def currentLen1_def buf2_def)
    have "CHR 0x0D \<notin> set buf1"
      using "1.prems" by (simp add: buf1_def splitWord_def openWord_def closeWord_def)
    then have "CHR 0x0D \<notin> set buf2" unfolding buf2_def by (rule writeQString_no_CR)
    then show ?thesis
      unfolding step
      using "1.IH" [OF False runeLen_def encLen_def split_def buf1_def currentLen1_def buf2_def
          "1.prems"(1)]
      by simp
  qed
qed

lemma QEncoding_Encode_no_CR: "CHR 0x0D \<notin> set (QEncoding_Encode ''utf-8'' s)"
proof (cases "needsEncoding s")
  case True
  have "CHR 0x0D \<notin> set (qEncode ''utf-8'' s 0 (openWord [] ''utf-8''))"
    by (rule qEncode_no_CR) (simp_all add: openWord_def)
  then show ?thesis using True by (simp add: QEncoding_Encode_def encodeWord_def closeWord_def)
next
  case False
  then have "\<forall>b \<in> set s. \<not> ((b < CHR '' '' \<or> CHR ''~'' < b) \<and> b \<noteq> CHR 0x09)"
    by (simp add: needsEncoding_def list_ex_iff)
  then have "CHR 0x0D \<notin> set s" by auto
  then show ?thesis using False by (simp add: QEncoding_Encode_def)
qed

lemma ToBytes_Some_preconditions:
  "ToBytes env m = (Some out, None) \<Longrightarrow>
   To m \<noteq> [] \<and> Body m \<noteq> [] \<and> ValidateEmail (From m) \<and> list_all ValidateEmail (To m)"
  by (auto simp: ToBytes_def validate_To_None [symmetric] split: if_splits option.splits)

lemma header_lines:
  assumes "ValidateEmail (From m)" and "list_all ValidateEmail (To m)"
  shows "lines_CRLF (message_headers m @ rest) =
     (''From: '' @ From m) # (''To: '' @ strings_Join (To m) '', '') #
     (''Subject: '' @ QEncoding_Encode ''utf-8'' (Subject m)) # ''MIME-Version: 1.0'' #
     lines_CRLF rest"
proof -
  have f: "CHR 0x0D \<notin> set (''From: '' @ From m)"
    using ValidateEmail_no_CR [OF assms(1)] by simp
  have "list_all (\<lambda>e. CHR 0x0D \<notin> set e) (To m)"
    using assms(2) ValidateEmail_no_CR by (simp add: list_all_iff)
  then have t: "CHR 0x0D \<notin> set (''To: '' @ strings_Join (To m) '', '')"
    using strings_Join_no_CR [of "To m" "'', ''"] by simp
  have s: "CHR 0x0D \<notin> set (''Subject: '' @ QEncoding_Encode ''utf-8'' (Subject m))"
    using QEncoding_Encode_no_CR [of "Subject m"] by simp
  have v: "CHR 0x0D \<notin> set ''MIME-Version: 1.0''" by simp
  have "message_headers m @ rest =
      (''From: '' @ From m) @ CRLF @ (''To: '' @ strings_Join (To m) '', '') @ CRLF @
      (''Subject: '' @ QEncoding_Encode ''utf-8'' (Subject m)) @ CRLF @
      ''MIME-Version: 1.0'' @ CRLF @ rest"
    by (simp add: message_headers_def)
  then show ?thesis
    by (simp only: lines_CRLF_line [OF f] lines_CRLF_line [OF t] lines_CRLF_line [OF s]
        lines_CRLF_line [OF v])
qed



section \<open>Claims on messages without parts and on the header block\<close>







text \<open>
  Claim C9, as stated: the subject is Q-encoded only when it has a byte that is not ASCII.
  It fails for the ASCII subject \<open>Hi\<close>, line feed, \<open>there\<close>: the code encodes it.
\<close>

theorem C9_counterexample:
  "list_all (\<lambda>b. b \<le> CHR 0x7F) (Subject mail_newline_subject) \<and>
   fst (ToBytes (go_env rand_fixed fs_one_file) mail_newline_subject) =
     Some (''From: a@b.com'' @ CRLF @ ''To: c@d.com, e@f.org'' @ CRLF @
           ''Subject: =?utf-8?q?Hi=0Athere?='' @ CRLF @
           ''MIME-Version: 1.0'' @ CRLF @
           ''Content-Type: text/plain; charset=UTF-8'' @ CRLF @
           ''Content-Transfer-Encoding: quoted-printable'' @ CRLF @ CRLF @
           ''hello'') \<and>
   claimed_headers mail_newline_subject =
     ''From: a@b.com'' @ CRLF @ ''To: c@d.com, e@f.org'' @ CRLF @
     ''Subject: Hi'' @ [CHR 0x0A] @ ''there'' @ CRLF @
     ''MIME-Version: 1.0'' @ CRLF \<and>
   take (length (claimed_headers mail_newline_subject))
        (the (fst (ToBytes (go_env rand_fixed fs_one_file) mail_newline_subject)))
     \<noteq> claimed_headers mail_newline_subject"
  by code_simp

text \<open>
  Claim C9, amended: every output of \<open>ToBytes\<close> begins with the line \<open>From:\<close> and the
  address, the line \<open>To:\<close> and the recipients in the caller's order joined by a comma and
  a space, the line \<open>Subject:\<close> and the subject, and the line \<open>MIME-Version: 1.0\<close>, each
  ended by CRLF, directly followed by a \<open>Content-Type\<close> header. The subject is an
  encoded-word with charset \<open>utf-8\<close> and encoding \<open>q\<close> when it has a byte outside the
  printable ASCII range from space to tilde other than a tab, be it a byte that is not
  ASCII or an ASCII control character, and is passed through otherwise.
\<close>

theorem C9_header_block:
  "(ToBytes env m = (Some out, None) \<longrightarrow>
      (\<exists>rest. out =
         ''From: '' @ From m @ CRLF @
         ''To: '' @ strings_Join (To m) '', '' @ CRLF @
         ''Subject: '' @ (if needsEncoding (Subject m) then encodeWord ''utf-8'' (Subject m)
                          else Subject m) @ CRLF @
         ''MIME-Version: 1.0'' @ CRLF @
         ''Content-Type: '' @ rest \<and>
       lines_CRLF out =
         (''From: '' @ From m) # (''To: '' @ strings_Join (To m) '', '') #
         (''Subject: '' @ (if needsEncoding (Subject m) then encodeWord ''utf-8'' (Subject m)
                           else Subject m)) #
         ''MIME-Version: 1.0'' # lines_CRLF (''Content-Type: '' @ rest))) \<and>
   (needsEncoding s \<longleftrightarrow> (\<exists>b \<in> set s. (b < CHR '' '' \<or> CHR ''~'' < b) \<and> b \<noteq> CHR 0x09)) \<and>
   (\<exists>w. encodeWord ''utf-8'' s = ''=?utf-8?q?'' @ w @ ''?='')"
proof (intro conjI impI)
  assume out: "ToBytes env m = (Some out, None)"
  obtain rest where "layout env m = message_headers m @ ''Content-Type: '' @ rest"
    using layout_starts by blast
  then have eq: "out = message_headers m @ ''Content-Type: '' @ rest"
    using ToBytes_layout [OF out] by simp
  have valid: "ValidateEmail (From m)" "list_all ValidateEmail (To m)"
    using ToBytes_Some_preconditions [OF out] by simp_all
  have "out =
         ''From: '' @ From m @ CRLF @
         ''To: '' @ strings_Join (To m) '', '' @ CRLF @
         ''Subject: '' @ (if needsEncoding (Subject m) then encodeWord ''utf-8'' (Subject m)
                          else Subject m) @ CRLF @
         ''MIME-Version: 1.0'' @ CRLF @
         ''Content-Type: '' @ rest \<and>
       lines_CRLF out =
         (''From: '' @ From m) # (''To: '' @ strings_Join (To m) '', '') #
         (''Subject: '' @ (if needsEncoding (Subject m) then encodeWord ''utf-8'' (Subject m)
                           else Subject m)) #
         ''MIME-Version: 1.0'' # lines_CRLF (''Content-Type: '' @ rest)"
    unfolding eq header_lines [OF valid]
    by (simp add: message_headers_def QEncoding_Encode_def)
  then show "\<exists>rest. out =
         ''From: '' @ From m @ CRLF @
         ''To: '' @ strings_Join (To m) '', '' @ CRLF @
         ''Subject: '' @ (if needsEncoding (Subject m) then encodeWord ''utf-8'' (Subject m)
                          else Subject m) @ CRLF @
         ''MIME-Version: 1.0'' @ CRLF @
         ''Content-Type: '' @ rest \<and>
       lines_CRLF out =
         (''From: '' @ From m) # (''To: '' @ strings_Join (To m) '', '') #
         (''Subject: '' @ (if needsEncoding (Subject m) then encodeWord ''utf-8'' (Subject m)
                           else Subject m)) #
         ''MIME-Version: 1.0'' # lines_CRLF (''Content-Type: '' @ rest)"
    by (rule exI)
next
  show "needsEncoding s \<longleftrightarrow> (\<exists>b \<in> set s. (b < CHR '' '' \<or> CHR ''~'' < b) \<and> b \<noteq> CHR 0x09)"
    by (simp add: needsEncoding_def list_ex_iff)
next
  show "\<exists>w. encodeWord ''utf-8'' s = ''=?utf-8?q?'' @ w @ ''?=''"
    by (rule encodeWord_shape)
qed

lemma accent_output:
  "ToBytes (go_env rand_fixed fs_one_file) mail_accent_subject =
     (Some (''From: a@b.com'' @ CRLF @ ''To: c@d.com, e@f.org'' @ CRLF @
            ''Subject: =?utf-8?q?=C3=A9?='' @ CRLF @
            ''MIME-Version: 1.0'' @ CRLF @
            ''Content-Type: multipart/mixed; boundary=boundary-01abff00000000000000000000000000''
              @ CRLF @ CRLF @
            ''--boundary-01abff00000000000000000000000000'' @ CRLF @
            ''Content-Type: text/plain; charset=UTF-8'' @ CRLF @
            ''Content-Transfer-Encoding: quoted-printable'' @ CRLF @ CRLF @
            ''hello'' @ CRLF @
            ''--boundary-01abff00000000000000000000000000'' @ CRLF @
            ''Content-Type: application/octet-stream; name='' @ DQ @ ''f.txt'' @ DQ @ CRLF @
            ''Content-Transfer-Encoding: base64'' @ CRLF @
            ''Content-Disposition: attachment; filename='' @ DQ @ ''f.txt'' @ DQ @ CRLF @ CRLF @
            ''YQ=='' @ CRLF @
            ''--boundary-01abff00000000000000000000000000--'' @ CRLF), None)"
  by code_simp

lemma accent_fields:
  "From mail_accent_subject = ''a@b.com''" "To mail_accent_subject = [''c@d.com'', ''e@f.org'']"
  "Subject mail_accent_subject = [CHR 0xC3, CHR 0xA9]"
  by (simp_all add: mail_accent_subject_def mail_plain_def)

lemma accent_needsEncoding: "needsEncoding [CHR 0xC3, CHR 0xA9]"
  by (simp add: needsEncoding_def)

lemma accent_encodeWord: "encodeWord ''utf-8'' [CHR 0xC3, CHR 0xA9] = ''=?utf-8?q?=C3=A9?=''"
  by code_simp

theorem C9_witness:
  "take 4 (lines_CRLF
     (''From: a@b.com'' @ CRLF @ ''To: c@d.com, e@f.org'' @ CRLF @
      ''Subject: =?utf-8?q?=C3=A9?='' @ CRLF @
      ''MIME-Version: 1.0'' @ CRLF @
      ''Content-Type: multipart/mixed; boundary=boundary-01abff00000000000000000000000000''
        @ CRLF @ CRLF @
      ''--boundary-01abff00000000000000000000000000'' @ CRLF @
      ''Content-Type: text/plain; charset=UTF-8'' @ CRLF @
      ''Content-Transfer-Encoding: quoted-printable'' @ CRLF @ CRLF @
      ''hello'' @ CRLF @
      ''--boundary-01abff00000000000000000000000000'' @ CRLF @
      ''Content-Type: application/octet-stream; name='' @ DQ @ ''f.txt'' @ DQ @ CRLF @
      ''Content-Transfer-Encoding: base64'' @ CRLF @
      ''Content-Disposition: attachment; filename='' @ DQ @ ''f.txt'' @ DQ @ CRLF @ CRLF @
      ''YQ=='' @ CRLF @
      ''--boundary-01abff00000000000000000000000000--'' @ CRLF)) =
   [''From: a@b.com'', ''To: c@d.com, e@f.org'', ''Subject: =?utf-8?q?=C3=A9?='',
    ''MIME-Version: 1.0'']"
proof -
  note h = mp [OF C9_header_block [of "go_env rand_fixed fs_one_file" mail_accent_subject,
        THEN conjunct1] accent_output]
  then obtain rest where
    "lines_CRLF
     (''From: a@b.com'' @ CRLF @ ''To: c@d.com, e@f.org'' @ CRLF @
      ''Subject: =?utf-8?q?=C3=A9?='' @ CRLF @
      ''MIME-Version: 1.0'' @ CRLF @
      ''Content-Type: multipart/mixed; boundary=boundary-01abff00000000000000000000000000''
        @ CRLF @ CRLF @
      ''--boundary-01abff00000000000000000000000000'' @ CRLF @
      ''Content-Type: text/plain; charset=UTF-8'' @ CRLF @
      ''Content-Transfer-Encoding: quoted-printable'' @ CRLF @ CRLF @
      ''hello'' @ CRLF @
      ''--boundary-01abff00000000000000000000000000'' @ CRLF @
      ''Content-Type: application/octet-stream; name='' @ DQ @ ''f.txt'' @ DQ @ CRLF @
      ''Content-Transfer-Encoding: base64'' @ CRLF @
      ''Content-Disposition: attachment; filename='' @ DQ @ ''f.txt'' @ DQ @ CRLF @ CRLF @
      ''YQ=='' @ CRLF @
      ''--boundary-01abff00000000000000000000000000--'' @ CRLF) =
     (''From: '' @ ''a@b.com'') # (''To: '' @ strings_Join [''c@d.com'', ''e@f.org''] '', '') #
     (''Subject: '' @ encodeWord ''utf-8'' [CHR 0xC3, CHR 0xA9]) #
     ''MIME-Version: 1.0'' # lines_CRLF (''Content-Type: '' @ rest)"
    unfolding accent_fields using accent_needsEncoding
    by (auto simp del: lines_CRLF.simps)
  then show ?thesis by (simp add: accent_encodeWord del: lines_CRLF.simps)
qed

end
